theory Spec2Isabelle
  imports Complex_Main "HOL-Library.Word"
begin

section \<open>The condition tree of plansys2 and its evaluator\<close>

text \<open>
  A shallow embedding of \<^verbatim>\<open>plansys2_problem_expert/Utils.cpp\<close> (the tree evaluator and
  its grounding utilities) and of \<^verbatim>\<open>Exists::getTree\<close> from
  \<^verbatim>\<open>plansys2_pddl_parser/Exists.cpp\<close>.

  Conventions of the embedding:
  \<^item> a \<^verbatim>\<open>double\<close> is its 64 bits (IEEE 754 binary64): comparisons and \<^verbatim>\<open>std::abs\<close> are
    functions of the bits and are defined here, NaN included; the four arithmetic
    operations round, and are parameters of the evaluator;
  \<^item> \<^verbatim>\<open>uint8_t\<close> and \<^verbatim>\<open>uint32_t\<close> are \<^typ>\<open>8 word\<close> and \<^typ>\<open>32 word\<close>; passing a child id
    (32 bits) to the \<^verbatim>\<open>uint8_t node_id\<close> parameter is \<^term>\<open>ucast\<close>;
  \<^item> reading a vector outside its bounds, and \<^verbatim>\<open>front()\<close> of an empty string, are undefined
    behaviour in C++ and the error value \<open>Undefined\<close> here;
  \<^item> the recursion of the source follows child ids through the node array and need not
    terminate (a node may be its own child); the recursive functions take a bound on the
    depth of nested calls and return \<open>OutOfFuel\<close> beyond it.
\<close>

subsection \<open>Doubles\<close>

text \<open>
  A \<^verbatim>\<open>double\<close> is one sign bit (bit 63), eleven bits of exponent and 52 bits of mantissa.
  The word 0 is the number \<open>+0.0\<close>, which is also what the \<^verbatim>\<open>int\<close> 0 converts to.
\<close>

type_synonym double = "64 word"

text \<open>A NaN has all exponent bits set and a mantissa that is not zero.\<close>

definition isnan :: "double \<Rightarrow> bool" where
  "isnan x \<longleftrightarrow> 0x7FF0000000000000 < take_bit 63 x"

text \<open>\<^verbatim>\<open>std::abs\<close> clears the sign bit.\<close>

definition double_abs :: "double \<Rightarrow> double" where
  "double_abs x = take_bit 63 x"

text \<open>
  Sign and magnitude: on doubles that are not NaN, the order of the numbers is the order of
  these integers (the two zeros are equal, the infinities are the extremes).
\<close>

definition double_key :: "double \<Rightarrow> int" where
  "double_key x = (if bit x 63 then - uint (take_bit 63 x) else uint x)"

text \<open>
  The comparisons \<^verbatim>\<open><\<close>, \<^verbatim>\<open><=\<close>, \<^verbatim>\<open>>\<close>, \<^verbatim>\<open>>=\<close> and \<^verbatim>\<open>==\<close> of two doubles: each is false when
  an operand is NaN.
\<close>

definition double_lt :: "double \<Rightarrow> double \<Rightarrow> bool" where
  "double_lt x y \<longleftrightarrow> \<not> isnan x \<and> \<not> isnan y \<and> double_key x < double_key y"

definition double_le :: "double \<Rightarrow> double \<Rightarrow> bool" where
  "double_le x y \<longleftrightarrow> \<not> isnan x \<and> \<not> isnan y \<and> double_key x \<le> double_key y"

definition double_gt :: "double \<Rightarrow> double \<Rightarrow> bool" where
  "double_gt x y \<longleftrightarrow> double_lt y x"

definition double_ge :: "double \<Rightarrow> double \<Rightarrow> bool" where
  "double_ge x y \<longleftrightarrow> double_le y x"

definition double_eq :: "double \<Rightarrow> double \<Rightarrow> bool" where
  "double_eq x y \<longleftrightarrow> \<not> isnan x \<and> \<not> isnan y \<and> double_key x = double_key y"

text \<open>
  The literal \<^verbatim>\<open>1e-5\<close> of the source is the double nearest to \<open>10^-5\<close>, the number
  \<open>5902958103587057 / 2^69\<close>.
\<close>

definition literal_1e_5 :: double where
  "literal_1e_5 = 0x3EE4F8B588E368F1"

subsection \<open>Messages\<close>

text \<open>\<^verbatim>\<open>plansys2_msgs::msg::Param\<close>; equality of two values compares every field.\<close>

record param =
  pname :: string
  ptype :: string
  sub_types :: "string list"

text \<open>
  The discriminants of \<^verbatim>\<open>plansys2_msgs::msg::Node\<close>. The source switches on a \<^verbatim>\<open>uint8\<close>;
  every value that is not one of the named constants takes the \<^verbatim>\<open>default\<close> branch, as
  \<open>UNKNOWN\<close> and \<open>ACTION\<close> do.
\<close>

datatype node_kind =
  UNKNOWN | AND | OR | NOT | ACTION | PREDICATE | FUNCTION | EXPRESSION
  | FUNCTION_MODIFIER | NUMBER | CONSTANT | PARAMETER | EXISTS

datatype expression_kind =
  EXPRESSION_UNKNOWN | COMP_GE | COMP_GT | COMP_LE | COMP_LT | COMP_EQ
  | ARITH_MULT | ARITH_DIV | ARITH_ADD | ARITH_SUB

datatype modifier_kind =
  MODIFIER_UNKNOWN | ASSIGN | INCREASE | DECREASE | SCALE_UP | SCALE_DOWN

record node =
  node_type :: node_kind
  expression_type :: expression_kind
  modifier_type :: modifier_kind
  node_id :: "32 word"
  children :: "32 word list"
  name :: string
  parameters :: "param list"
  node_value :: double
  node_negate :: bool

record tree =
  nodes :: "node list"

datatype error = OutOfFuel | Undefined

subsection \<open>Cartesian product\<close>

text \<open>
  \<^verbatim>\<open>cart_product(rvvi, rvi, me, end)\<close>: the two reference parameters are passed in and
  returned; the iterator range \<^verbatim>\<open>[me, end)\<close> is the list of the remaining input lists.
  The loop body pushes an element on \<^verbatim>\<open>rvi\<close>, recurses and pops it again.
\<close>

primrec cart_product ::
  "string list list \<Rightarrow> string list \<Rightarrow> string list list \<Rightarrow> string list list \<times> string list"
where
  "cart_product rvvi rvi [] = (rvvi @ [rvi], rvi)"
| "cart_product rvvi rvi (mevi # rest) =
     fold (\<lambda>it (rvvi', rvi').
            case cart_product rvvi' (rvi' @ [it]) rest of
              (rvvi'', rvi'') \<Rightarrow> (rvvi'', butlast rvi''))
          mevi (rvvi, rvi)"

subsection \<open>State facts and the two state backends\<close>

text \<open>
  \<^verbatim>\<open>plansys2::Predicate\<close>, \<^verbatim>\<open>plansys2::Function\<close> and \<^verbatim>\<open>plansys2::Instance\<close> derive from the
  messages \<^verbatim>\<open>Node\<close>, \<^verbatim>\<open>Node\<close> and \<^verbatim>\<open>Param\<close>: a predicate or function of the local state
  is a \<^typ>\<open>node\<close>, an instance is a \<^typ>\<open>param\<close>.
\<close>

text \<open>
  \<^verbatim>\<open>std::find_if\<close>: the iterator it returns is the position of the first element that
  satisfies the predicate, and \<^verbatim>\<open>end()\<close> is the length of the vector.
\<close>

primrec find_if :: "('a \<Rightarrow> bool) \<Rightarrow> 'a list \<Rightarrow> nat" where
  "find_if pred [] = 0"
| "find_if pred (x # xs) = (if pred x then 0 else Suc (find_if pred xs))"

text \<open>\<^verbatim>\<open>vector::erase(it)\<close> for a position inside the vector.\<close>

definition erase :: "'a list \<Rightarrow> nat \<Rightarrow> 'a list" where
  "erase xs it = take it xs @ drop (Suc it) xs"

text \<open>
  The collaborators whose code is not among the sources are parameters of the evaluator,
  collected in one record:
  \<^item> \<open>checkNodeEquality\<close>, \<open>toString\<close> and \<open>fromStringFunction\<close>, the functions of that name
    of \<^verbatim>\<open>parser::pddl\<close>;
  \<^item> \<open>show_double\<close>, what \<^verbatim>\<open>operator<<\<close> of a stream writes for a \<^verbatim>\<open>double\<close>;
  \<^item> \<open>double_add\<close>, \<open>double_sub\<close>, \<open>double_mul\<close> and \<open>double_div\<close>, the operations \<^verbatim>\<open>+\<close>, \<^verbatim>\<open>-\<close>,
    \<^verbatim>\<open>*\<close> and \<^verbatim>\<open>/\<close> of the platform on doubles;
  \<^item> the six calls the evaluator makes on \<^verbatim>\<open>ProblemExpertClient\<close>, which act on a remote
    state of type \<^typ>\<open>'c\<close> and return it with their answer.
\<close>

record 'c externals =
  checkNodeEquality :: "node \<Rightarrow> node \<Rightarrow> bool"
  toString :: "tree \<Rightarrow> 32 word \<Rightarrow> string"
  fromStringFunction :: "string \<Rightarrow> node"
  show_double :: "double \<Rightarrow> string"
  double_add :: "double \<Rightarrow> double \<Rightarrow> double"
  double_sub :: "double \<Rightarrow> double \<Rightarrow> double"
  double_mul :: "double \<Rightarrow> double \<Rightarrow> double"
  double_div :: "double \<Rightarrow> double \<Rightarrow> double"
  removePredicate :: "node \<Rightarrow> 'c \<Rightarrow> bool \<times> 'c"
  addPredicate :: "node \<Rightarrow> 'c \<Rightarrow> bool \<times> 'c"
  existPredicate :: "node \<Rightarrow> 'c \<Rightarrow> bool \<times> 'c"
  getFunction :: "string \<Rightarrow> 'c \<Rightarrow> node option \<times> 'c"
  updateFunction :: "node \<Rightarrow> 'c \<Rightarrow> bool \<times> 'c"
  getInstances :: "'c \<Rightarrow> param list \<times> 'c"

text \<open>
  What a call of \<^verbatim>\<open>evaluate\<close> can change: the state behind \<^verbatim>\<open>problem_client\<close> and the two
  vectors it receives by reference (\<open>functions\<close> is a keyword of Isabelle, hence the prime).
\<close>

record 'c state =
  remote :: 'c
  predicates :: "node list"
  functions' :: "node list"

type_synonym result = "bool \<times> bool \<times> double"

type_synonym 'c outcome = "error + result \<times> 'c state"

text \<open>
  The parameters of \<^verbatim>\<open>evaluate\<close> that remain: tree, state, \<^verbatim>\<open>apply\<close>, \<^verbatim>\<open>use_state\<close>,
  \<^verbatim>\<open>node_id\<close>, \<^verbatim>\<open>negate\<close>.
\<close>

type_synonym 'c evaluator =
  "tree \<Rightarrow> 'c state \<Rightarrow> bool \<Rightarrow> bool \<Rightarrow> 8 word \<Rightarrow> bool \<Rightarrow> 'c outcome"

abbreviation get0 :: "result \<Rightarrow> bool" where
  "get0 r \<equiv> fst r"

abbreviation get1 :: "result \<Rightarrow> bool" where
  "get1 r \<equiv> fst (snd r)"

abbreviation get2 :: "result \<Rightarrow> double" where
  "get2 r \<equiv> snd (snd r)"

subsection \<open>Substitution of parameters\<close>

text \<open>
  \<^verbatim>\<open>replace_children_param\<close>. The loop over the children passes the tree built so far; the
  loop over the parameters reads the names of the tree it was given and writes into the
  new one. \<open>rec\<close> stands for the recursive call, \<open>nid\<close> for the parameter \<^verbatim>\<open>node_id\<close>
  (the message has a field of that name).
\<close>

fun replace_children_loop ::
  "(tree \<Rightarrow> 8 word \<Rightarrow> error + tree) \<Rightarrow> 32 word list \<Rightarrow> tree \<Rightarrow> error + tree"
where
  "replace_children_loop rec [] new_tree = Inr new_tree"
| "replace_children_loop rec (child_id # rest) new_tree =
     (case rec new_tree (ucast child_id) of
        Inl e \<Rightarrow> Inl e
      | Inr t \<Rightarrow> replace_children_loop rec rest t)"

definition set_param_name :: "tree \<Rightarrow> nat \<Rightarrow> nat \<Rightarrow> string \<Rightarrow> error + tree" where
  "set_param_name new_tree k i v =
     (if k < length (nodes new_tree) \<and> i < length (parameters (nodes new_tree ! k)) then
        let n = nodes new_tree ! k;
            p = parameters n ! i
        in Inr (new_tree\<lparr>nodes := (nodes new_tree)
                  [k := n\<lparr>parameters := (parameters n)[i := p\<lparr>pname := v\<rparr>]\<rparr>]\<rparr>)
      else Inl Undefined)"

fun replace_params_loop ::
  "param list \<Rightarrow> nat \<Rightarrow> (string \<rightharpoonup> string) \<Rightarrow> nat list \<Rightarrow> tree \<Rightarrow> error + tree"
where
  "replace_params_loop ps k replace [] new_tree = Inr new_tree"
| "replace_params_loop ps k replace (i # rest) new_tree =
     (case replace (pname (ps ! i)) of
        None \<Rightarrow> replace_params_loop ps k replace rest new_tree
      | Some v \<Rightarrow>
          (case set_param_name new_tree k i v of
             Inl e \<Rightarrow> Inl e
           | Inr t \<Rightarrow> replace_params_loop ps k replace rest t))"

definition replace_children_param_body ::
  "(tree \<Rightarrow> 8 word \<Rightarrow> error + tree) \<Rightarrow> tree \<Rightarrow> 8 word \<Rightarrow> (string \<rightharpoonup> string) \<Rightarrow> error + tree"
where
  "replace_children_param_body rec tree nid replace =
     (if length (nodes tree) \<le> unat nid then Inl Undefined
      else
        let n = nodes tree ! unat nid in
        case replace_children_loop rec (children n) tree of
          Inl e \<Rightarrow> Inl e
        | Inr new_tree \<Rightarrow>
            replace_params_loop (parameters n) (unat nid) replace
              [0..<length (parameters n)] new_tree)"

primrec replace_children_param ::
  "nat \<Rightarrow> tree \<Rightarrow> 8 word \<Rightarrow> (string \<rightharpoonup> string) \<Rightarrow> error + tree"
where
  "replace_children_param 0 tree nid replace =
     replace_children_param_body (\<lambda>t c. Inl OutOfFuel) tree nid replace"
| "replace_children_param (Suc fuel) tree nid replace =
     replace_children_param_body (\<lambda>t c. replace_children_param fuel t c replace)
       tree nid replace"

subsection \<open>The evaluator, case by case\<close>

text \<open>
  In the definitions below \<open>rec\<close> stands for the recursive call of \<^verbatim>\<open>evaluate\<close> and \<open>ev\<close>
  for that call on a child id with every other argument fixed. An error of a recursive
  call (undefined behaviour, or the bound on the depth) ends the evaluation.

  The loops of the \<^verbatim>\<open>AND\<close> and \<^verbatim>\<open>OR\<close> cases: the call is made before \<^verbatim>\<open>&&\<close> and \<^verbatim>\<open>||\<close>
  combine its result, so every child is evaluated.
\<close>

fun evaluate_AND_loop ::
  "(32 word \<Rightarrow> 'c state \<Rightarrow> 'c outcome) \<Rightarrow> 32 word list \<Rightarrow> bool \<Rightarrow> bool \<Rightarrow> 'c state \<Rightarrow> 'c outcome"
where
  "evaluate_AND_loop ev [] success truth_value st = Inr ((success, truth_value, 0), st)"
| "evaluate_AND_loop ev (child_id # rest) success truth_value st =
     (case ev child_id st of
        Inl e \<Rightarrow> Inl e
      | Inr (result, st') \<Rightarrow>
          evaluate_AND_loop ev rest (success \<and> get0 result) (truth_value \<and> get1 result) st')"

fun evaluate_OR_loop ::
  "(32 word \<Rightarrow> 'c state \<Rightarrow> 'c outcome) \<Rightarrow> 32 word list \<Rightarrow> bool \<Rightarrow> bool \<Rightarrow> 'c state \<Rightarrow> 'c outcome"
where
  "evaluate_OR_loop ev [] success truth_value st = Inr ((success, truth_value, 0), st)"
| "evaluate_OR_loop ev (child_id # rest) success truth_value st =
     (case ev child_id st of
        Inl e \<Rightarrow> Inl e
      | Inr (result, st') \<Rightarrow>
          evaluate_OR_loop ev rest (success \<and> get0 result) (truth_value \<or> get1 result) st')"

definition evaluate_NOT :: "'c evaluator \<Rightarrow> 'c evaluator" where
  "evaluate_NOT rec tree st apply use_state nid negate =
     (case children (nodes tree ! unat nid) of
        [] \<Rightarrow> Inl Undefined
      | child_id # _ \<Rightarrow> rec tree st apply use_state (ucast child_id) (\<not> negate))"

definition evaluate_PREDICATE ::
  "'c externals \<Rightarrow> node \<Rightarrow> 'c state \<Rightarrow> bool \<Rightarrow> bool \<Rightarrow> bool \<Rightarrow> 'c outcome"
where
  "evaluate_PREDICATE ext n st apply use_state negate =
     (if apply then
        if use_state then
          let it = find_if (\<lambda>x. checkNodeEquality ext x n) (predicates st) in
          if negate then
            Inr ((True, False, 0),
                 if it \<noteq> length (predicates st)
                 then st\<lparr>predicates := erase (predicates st) it\<rparr> else st)
          else
            Inr ((True, True, 0),
                 if it = length (predicates st)
                 then st\<lparr>predicates := predicates st @ [n]\<rparr> else st)
        else
          if negate then
            (case removePredicate ext n (remote st) of
               (ok, c) \<Rightarrow> Inr ((ok, False, 0), st\<lparr>remote := c\<rparr>))
          else
            (case addPredicate ext n (remote st) of
               (ok, c) \<Rightarrow> Inr ((ok, True, 0), st\<lparr>remote := c\<rparr>))
      else
        if use_state then
          Inr ((True,
                negate \<noteq> (find_if (\<lambda>x. checkNodeEquality ext x n) (predicates st)
                            \<noteq> length (predicates st)),
                0), st)
        else
          (case existPredicate ext n (remote st) of
             (found, c) \<Rightarrow> Inr ((True, negate \<noteq> found, 0), st\<lparr>remote := c\<rparr>)))"

definition evaluate_FUNCTION ::
  "'c externals \<Rightarrow> tree \<Rightarrow> 'c state \<Rightarrow> bool \<Rightarrow> 8 word \<Rightarrow> 'c outcome"
where
  "evaluate_FUNCTION ext tree st use_state nid =
     (if use_state then
        let it = find_if (\<lambda>x. checkNodeEquality ext x (nodes tree ! unat nid)) (functions' st) in
        if it \<noteq> length (functions' st)
        then Inr ((True, False, node_value (functions' st ! it)), st)
        else Inr ((False, False, 0), st)
      else
        (case getFunction ext (toString ext tree (ucast nid)) (remote st) of
           (Some func, c) \<Rightarrow> Inr ((True, False, node_value func), st\<lparr>remote := c\<rparr>)
         | (None, c) \<Rightarrow> Inr ((False, False, 0), st\<lparr>remote := c\<rparr>)))"

text \<open>
  The name compared by \<^verbatim>\<open>COMP_EQ\<close>: \<^verbatim>\<open>parameters[0].name\<close> of a \<^verbatim>\<open>PARAMETER\<close> node, the name
  of a \<^verbatim>\<open>CONSTANT\<close> node.
\<close>

definition symbol_name :: "node \<Rightarrow> error + string" where
  "symbol_name c =
     (if node_type c = PARAMETER then
        (case parameters c of [] \<Rightarrow> Inl Undefined | p # _ \<Rightarrow> Inr (pname p))
      else Inr (name c))"

text \<open>
  \<^verbatim>\<open>COMP_EQ\<close> reads the two operand nodes at the child ids as they are stored (32 bits),
  not at the ids the recursive calls received.
\<close>

definition comp_eq_result ::
  "tree \<Rightarrow> 32 word \<Rightarrow> 32 word \<Rightarrow> bool \<Rightarrow> result \<Rightarrow> result \<Rightarrow> error + result"
where
  "comp_eq_result tree child0 child1 negate left right =
     (if length (nodes tree) \<le> unat child0 \<or> length (nodes tree) \<le> unat child1
      then Inl Undefined
      else
        let c0 = nodes tree ! unat child0;
            c1 = nodes tree ! unat child1;
            c0_type = node_type c0;
            c1_type = node_type c1
        in
          if (c0_type = CONSTANT \<or> c0_type = PARAMETER)
             \<and> (c1_type = CONSTANT \<or> c1_type = PARAMETER) then
            (case symbol_name c0 of
               Inl e \<Rightarrow> Inl e
             | Inr c0_name \<Rightarrow>
                 (case symbol_name c1 of
                    Inl e \<Rightarrow> Inl e
                  | Inr c1_name \<Rightarrow> Inr (True, negate \<noteq> (c1_name = c0_name), 0)))
          else if c0_type = NUMBER \<and> c1_type = NUMBER then
            Inr (True, negate \<noteq> double_eq (get2 left) (get2 right), 0)
          else Inr (False, False, 0))"

definition expression_result ::
  "'c externals \<Rightarrow> tree \<Rightarrow> expression_kind \<Rightarrow> 32 word \<Rightarrow> 32 word \<Rightarrow> bool \<Rightarrow> result \<Rightarrow> result
   \<Rightarrow> error + result"
where
  "expression_result ext tree op child0 child1 negate left right =
     (case op of
        COMP_GE \<Rightarrow> Inr (True, negate \<noteq> double_ge (get2 left) (get2 right), 0)
      | COMP_GT \<Rightarrow> Inr (True, negate \<noteq> double_gt (get2 left) (get2 right), 0)
      | COMP_LE \<Rightarrow> Inr (True, negate \<noteq> double_le (get2 left) (get2 right), 0)
      | COMP_LT \<Rightarrow> Inr (True, negate \<noteq> double_lt (get2 left) (get2 right), 0)
      | COMP_EQ \<Rightarrow> comp_eq_result tree child0 child1 negate left right
      | ARITH_MULT \<Rightarrow> Inr (True, False, double_mul ext (get2 left) (get2 right))
      | ARITH_DIV \<Rightarrow>
          if double_gt (double_abs (get2 right)) literal_1e_5
          then Inr (True, False, double_div ext (get2 left) (get2 right))
          else Inr (False, False, 0)
      | ARITH_ADD \<Rightarrow> Inr (True, False, double_add ext (get2 left) (get2 right))
      | ARITH_SUB \<Rightarrow> Inr (True, False, double_sub ext (get2 left) (get2 right))
      | EXPRESSION_UNKNOWN \<Rightarrow> Inr (False, False, 0))"

definition evaluate_EXPRESSION :: "'c externals \<Rightarrow> 'c evaluator \<Rightarrow> 'c evaluator" where
  "evaluate_EXPRESSION ext rec tree st apply use_state nid negate =
     (let n = nodes tree ! unat nid in
      case children n of
        [] \<Rightarrow> Inl Undefined
      | child0 # others \<Rightarrow>
          (case rec tree st apply use_state (ucast child0) negate of
             Inl e \<Rightarrow> Inl e
           | Inr (left, st1) \<Rightarrow>
               (case others of
                  [] \<Rightarrow> Inl Undefined
                | child1 # _ \<Rightarrow>
                    (case rec tree st1 apply use_state (ucast child1) negate of
                       Inl e \<Rightarrow> Inl e
                     | Inr (right, st2) \<Rightarrow>
                         if \<not> get0 left \<or> \<not> get0 right then Inr ((False, False, 0), st2)
                         else
                           (case expression_result ext tree (expression_type n)
                                   child0 child1 negate left right of
                              Inl e \<Rightarrow> Inl e
                            | Inr r \<Rightarrow> Inr (r, st2))))))"

text \<open>The \<^verbatim>\<open>switch\<close> on the modifier: the pair of \<^verbatim>\<open>success\<close> and \<^verbatim>\<open>value\<close> after it.\<close>

definition modifier_result ::
  "'c externals \<Rightarrow> modifier_kind \<Rightarrow> result \<Rightarrow> result \<Rightarrow> bool \<times> double"
where
  "modifier_result ext m left right =
     (case m of
        ASSIGN \<Rightarrow> (True, get2 right)
      | INCREASE \<Rightarrow> (True, double_add ext (get2 left) (get2 right))
      | DECREASE \<Rightarrow> (True, double_sub ext (get2 left) (get2 right))
      | SCALE_UP \<Rightarrow> (True, double_mul ext (get2 left) (get2 right))
      | SCALE_DOWN \<Rightarrow>
          if double_gt (double_abs (get2 right)) literal_1e_5
          then (True, double_div ext (get2 left) (get2 right))
          else (False, 0)
      | MODIFIER_UNKNOWN \<Rightarrow> (False, 0))"

text \<open>
  The block under \<^verbatim>\<open>if (success && apply)\<close>: it returns the new \<^verbatim>\<open>success\<close>. The answer of
  \<^verbatim>\<open>updateFunction\<close> is dropped by the source.
\<close>

definition commit_function ::
  "'c externals \<Rightarrow> tree \<Rightarrow> 'c state \<Rightarrow> bool \<Rightarrow> 8 word \<Rightarrow> double \<Rightarrow> error + bool \<times> 'c state"
where
  "commit_function ext tree st use_state left_id v =
     (if use_state then
        if length (nodes tree) \<le> unat left_id then Inl Undefined
        else
          let it = find_if (\<lambda>x. checkNodeEquality ext x (nodes tree ! unat left_id)) (functions' st)
          in
            if it \<noteq> length (functions' st)
            then Inr (True, st\<lparr>functions' :=
                        (functions' st)[it := (functions' st ! it)\<lparr>node_value := v\<rparr>]\<rparr>)
            else Inr (False, st)
      else
        (case updateFunction ext
                (fromStringFunction ext
                   (''(= '' @ toString ext tree (ucast left_id) @ '' '' @ show_double ext v @ '')''))
                (remote st) of
           (ok, c) \<Rightarrow> Inr (True, st\<lparr>remote := c\<rparr>)))"

definition evaluate_FUNCTION_MODIFIER :: "'c externals \<Rightarrow> 'c evaluator \<Rightarrow> 'c evaluator" where
  "evaluate_FUNCTION_MODIFIER ext rec tree st apply use_state nid negate =
     (let n = nodes tree ! unat nid in
      case children n of
        [] \<Rightarrow> Inl Undefined
      | child0 # others \<Rightarrow>
          (case rec tree st apply use_state (ucast child0) negate of
             Inl e \<Rightarrow> Inl e
           | Inr (left, st1) \<Rightarrow>
               (case others of
                  [] \<Rightarrow> Inl Undefined
                | child1 # _ \<Rightarrow>
                    (case rec tree st1 apply use_state (ucast child1) negate of
                       Inl e \<Rightarrow> Inl e
                     | Inr (right, st2) \<Rightarrow>
                         if \<not> get0 left \<or> \<not> get0 right then Inr ((False, False, 0), st2)
                         else
                           (case modifier_result ext (modifier_type n) left right of
                              (success, v) \<Rightarrow>
                                if success \<and> apply then
                                  (case commit_function ext tree st2 use_state (ucast child0) v of
                                     Inl e \<Rightarrow> Inl e
                                   | Inr (success', st3) \<Rightarrow> Inr ((success', False, v), st3))
                                else Inr ((success, False, v), st2))))))"

text \<open>
  The candidates of the \<^verbatim>\<open>EXISTS\<close> case. With the local state the instances are the
  parameters of the held predicates, each kept once (\<^verbatim>\<open>std::find\<close> compares whole
  \<^verbatim>\<open>Param\<close> values); every quantified parameter gets the list of their names.
\<close>

definition collect_instances :: "node list \<Rightarrow> param list" where
  "collect_instances preds =
     fold (\<lambda>predicate instances.
             fold (\<lambda>p instances'. if p \<in> set instances' then instances' else instances' @ [p])
                  (parameters predicate) instances)
          preds []"

definition possible_parameters_values :: "node \<Rightarrow> param list \<Rightarrow> string list list" where
  "possible_parameters_values n instances =
     fst (cart_product [] []
            (replicate (length (parameters n)) (map pname instances)))"

text \<open>
  The map \<^verbatim>\<open>replace\<close> of one candidate tuple: position \<open>i\<close> of the tuple is bound to the
  name of parameter \<open>i\<close>, a later binding of the same name overwriting an earlier one.
\<close>

definition make_replace :: "param list \<Rightarrow> string list \<Rightarrow> (string \<rightharpoonup> string)" where
  "make_replace ps parameters_values =
     fold (\<lambda>i replace. replace(pname (ps ! i) \<mapsto> parameters_values ! i))
          [0..<length ps] Map.empty"

text \<open>The body of the loop over the candidate tuples, up to the test of its result.\<close>

definition exists_candidate ::
  "(tree \<Rightarrow> 8 word \<Rightarrow> (string \<rightharpoonup> string) \<Rightarrow> error + tree) \<Rightarrow> 'c evaluator \<Rightarrow>
   tree \<Rightarrow> bool \<Rightarrow> bool \<Rightarrow> 8 word \<Rightarrow> bool \<Rightarrow> string list \<Rightarrow> 'c state \<Rightarrow> 'c outcome"
where
  "exists_candidate rcp rec tree apply use_state nid negate parameters_values st =
     (case rcp tree nid (make_replace (parameters (nodes tree ! unat nid)) parameters_values) of
        Inl e \<Rightarrow> Inl e
      | Inr tree_replaced \<Rightarrow>
          if length (nodes tree_replaced) \<le> unat nid then Inl Undefined
          else
            (case children (nodes tree_replaced ! unat nid) of
               [] \<Rightarrow> Inl Undefined
             | child_id # _ \<Rightarrow> rec tree_replaced st apply use_state (ucast child_id) negate))"

fun exists_loop ::
  "(string list \<Rightarrow> 'c state \<Rightarrow> 'c outcome) \<Rightarrow> string list list \<Rightarrow> 'c state \<Rightarrow> 'c outcome"
where
  "exists_loop candidate [] st = Inr ((True, False, 0), st)"
| "exists_loop candidate (parameters_values # rest) st =
     (case candidate parameters_values st of
        Inl e \<Rightarrow> Inl e
      | Inr (result, st') \<Rightarrow>
          if get1 result then Inr (result, st') else exists_loop candidate rest st')"

definition evaluate_EXISTS ::
  "(tree \<Rightarrow> 8 word \<Rightarrow> (string \<rightharpoonup> string) \<Rightarrow> error + tree) \<Rightarrow> 'c externals \<Rightarrow>
   'c evaluator \<Rightarrow> 'c evaluator"
where
  "evaluate_EXISTS rcp ext rec tree st apply use_state nid negate =
     (case (if use_state then (collect_instances (predicates st), st)
            else (case getInstances ext (remote st) of
                    (instances, c) \<Rightarrow> (instances, st\<lparr>remote := c\<rparr>))) of
        (instances, st0) \<Rightarrow>
          exists_loop (exists_candidate rcp rec tree apply use_state nid negate)
            (possible_parameters_values (nodes tree ! unat nid) instances) st0)"

text \<open>
  The \<^verbatim>\<open>PARAMETER\<close> case has a \<^verbatim>\<open>return\<close> inside its \<^verbatim>\<open>if\<close> only and no \<^verbatim>\<open>break\<close>: when the
  test fails, control runs on into the \<^verbatim>\<open>EXISTS\<close> case.
\<close>

definition evaluate_PARAMETER ::
  "(tree \<Rightarrow> 8 word \<Rightarrow> (string \<rightharpoonup> string) \<Rightarrow> error + tree) \<Rightarrow> 'c externals \<Rightarrow>
   'c evaluator \<Rightarrow> 'c evaluator"
where
  "evaluate_PARAMETER rcp ext rec tree st apply use_state nid negate =
     (case parameters (nodes tree ! unat nid) of
        [] \<Rightarrow> evaluate_EXISTS rcp ext rec tree st apply use_state nid negate
      | p # _ \<Rightarrow>
          (case pname p of
             [] \<Rightarrow> Inl Undefined
           | front # _ \<Rightarrow>
               if front \<noteq> CHR ''?'' then Inr ((True, True, 0), st)
               else evaluate_EXISTS rcp ext rec tree st apply use_state nid negate))"

text \<open>
  The body of \<^verbatim>\<open>evaluate\<close>. The text written to \<^verbatim>\<open>std::cerr\<close> in the \<^verbatim>\<open>default\<close> branch is
  not part of the result and is left out.
\<close>

definition evaluate_body ::
  "(tree \<Rightarrow> 8 word \<Rightarrow> (string \<rightharpoonup> string) \<Rightarrow> error + tree) \<Rightarrow> 'c externals \<Rightarrow>
   'c evaluator \<Rightarrow> 'c evaluator"
where
  "evaluate_body rcp ext rec tree st apply use_state nid negate =
     (if nodes tree = [] then Inr ((True, True, 0), st)
      else if length (nodes tree) \<le> unat nid then Inl Undefined
      else
        let n = nodes tree ! unat nid;
            ev = (\<lambda>child_id st'. rec tree st' apply use_state (ucast child_id) negate)
        in
          case node_type n of
            AND \<Rightarrow> evaluate_AND_loop ev (children n) True True st
          | OR \<Rightarrow> evaluate_OR_loop ev (children n) True False st
          | NOT \<Rightarrow> evaluate_NOT rec tree st apply use_state nid negate
          | PREDICATE \<Rightarrow> evaluate_PREDICATE ext n st apply use_state negate
          | FUNCTION \<Rightarrow> evaluate_FUNCTION ext tree st use_state nid
          | EXPRESSION \<Rightarrow> evaluate_EXPRESSION ext rec tree st apply use_state nid negate
          | FUNCTION_MODIFIER \<Rightarrow>
              evaluate_FUNCTION_MODIFIER ext rec tree st apply use_state nid negate
          | NUMBER \<Rightarrow> Inr ((True, True, node_value n), st)
          | CONSTANT \<Rightarrow>
              if length (name n) > 0 then Inr ((True, True, 0), st)
              else Inr ((True, False, 0), st)
          | PARAMETER \<Rightarrow> evaluate_PARAMETER rcp ext rec tree st apply use_state nid negate
          | EXISTS \<Rightarrow> evaluate_EXISTS rcp ext rec tree st apply use_state nid negate
          | UNKNOWN \<Rightarrow> Inr ((False, False, 0), st)
          | ACTION \<Rightarrow> Inr ((False, False, 0), st))"

text \<open>
  \<^verbatim>\<open>evaluate\<close> with a bound on the depth of nested calls: with \<open>fuel\<close> the call may nest
  \<open>fuel\<close> calls below itself, and a call nested deeper returns \<open>OutOfFuel\<close>.
\<close>

primrec evaluate :: "nat \<Rightarrow> 'c externals \<Rightarrow> 'c evaluator" where
  "evaluate 0 ext =
     evaluate_body (replace_children_param 0) ext (\<lambda>t st a u n neg. Inl OutOfFuel)"
| "evaluate (Suc fuel) ext =
     evaluate_body (replace_children_param (Suc fuel)) ext (evaluate fuel ext)"

declare evaluate.simps [simp del]

declare replace_children_param.simps [simp del]

subsection \<open>Lowering of the existential condition\<close>

text \<open>
  \<^verbatim>\<open>std::to_string\<close> on an \<^verbatim>\<open>int\<close>: the decimal digits, after a minus sign for a negative
  number.
\<close>

fun decimal_digits :: "nat \<Rightarrow> string" where
  "decimal_digits n =
     (if 9 < n then decimal_digits (n div 10) else []) @ [char_of (n mod 10 + 48)]"

declare decimal_digits.simps [simp del]

definition to_string :: "int \<Rightarrow> string" where
  "to_string i =
     (if 0 \<le> i then decimal_digits (nat i) else CHR ''-'' # decimal_digits (nat (- i)))"

text \<open>
  The comparison \<^verbatim>\<open>params[i] < replace.size()\<close> is between an \<^verbatim>\<open>int\<close> and a \<^verbatim>\<open>size_t\<close>: the
  \<^verbatim>\<open>int\<close> is converted to 64 bits without sign first, which turns a negative number into
  a large one.
\<close>

definition size_t_of_int :: "int \<Rightarrow> nat" where
  "size_t_of_int i = nat (i mod 2 ^ 64)"

text \<open>The messages as their default constructors leave them.\<close>

definition Param_default :: param where
  "Param_default = \<lparr>pname = [], ptype = [], sub_types = []\<rparr>"

definition Node_default :: node where
  "Node_default =
     \<lparr>node_type = UNKNOWN, expression_type = EXPRESSION_UNKNOWN,
      modifier_type = MODIFIER_UNKNOWN, node_id = 0, children = [], name = [],
      parameters = [], node_value = 0, node_negate = False\<rparr>"

text \<open>
  The class \<^verbatim>\<open>Exists\<close>: the vector \<^verbatim>\<open>params\<close> of \<^verbatim>\<open>int\<close> and the pointer \<^verbatim>\<open>cond\<close> to the nested
  condition, which is null after parsing an empty body. The classes of the nested
  conditions are not among the sources; \<open>cond\<close> holds the \<^verbatim>\<open>getTree\<close> of the nested
  condition, a function of the tree, the domain and the replacement list that returns the
  tree it has extended and the node it answers.
\<close>

record 'd exists_condition =
  params :: "int list"
  cond :: "(tree \<Rightarrow> 'd \<Rightarrow> string list \<Rightarrow> error + tree \<times> node) option"

text \<open>The body of the loop over \<^verbatim>\<open>params\<close> at position \<open>i\<close>.\<close>

definition exists_param :: "string list \<Rightarrow> nat \<Rightarrow> int \<Rightarrow> param" where
  "exists_param replace i p =
     (if i < length replace \<and> size_t_of_int p < length replace then
        if p \<ge> 0 then Param_default\<lparr>pname := replace ! size_t_of_int p\<rparr>
        else Param_default
      else Param_default\<lparr>pname := ''?'' @ to_string p\<rparr>)"

definition Exists_getTree ::
  "'d exists_condition \<Rightarrow> tree \<Rightarrow> 'd \<Rightarrow> string list \<Rightarrow> error + tree \<times> node"
where
  "Exists_getTree e tree d replace =
     (let n = Node_default
                \<lparr>node_type := EXISTS,
                 node_id := of_nat (length (nodes tree)),
                 parameters := map (\<lambda>i. exists_param replace i (params e ! i))
                                   [0..<length (params e)]\<rparr>;
          tree1 = tree\<lparr>nodes := nodes tree @ [n]\<rparr>
      in
        case cond e of
          None \<Rightarrow> Inl Undefined
        | Some lower \<Rightarrow>
            (case lower tree1 d replace of
               Inl err \<Rightarrow> Inl err
             | Inr (tree2, child) \<Rightarrow>
                 if length (nodes tree2) \<le> unat (node_id n) then Inl Undefined
                 else
                   let own = nodes tree2 ! unat (node_id n) in
                   Inr (tree2\<lparr>nodes := (nodes tree2)
                          [unat (node_id n) := own\<lparr>children := children own @ [node_id child]\<rparr>]\<rparr>,
                        n)))"

subsection \<open>Concrete inputs\<close>

text \<open>
  Modelled from the spec: the body of \<^verbatim>\<open>parser::pddl::checkNodeEquality\<close> is not among the
  sources. The spec gives predicates and functions a structural equality keyed on the
  name and the parameter names, which ignores the tree bookkeeping (id, children).
\<close>

definition structural_equality :: "node \<Rightarrow> node \<Rightarrow> bool" where
  "structural_equality first second \<longleftrightarrow>
     name first = name second
     \<and> map pname (parameters first) = map pname (parameters second)"

text \<open>The doubles 1.0, 3.0, 5.0 and 1e-6, and a NaN.\<close>

definition double_one :: double where
  "double_one = 0x3FF0000000000000"

definition double_three :: double where
  "double_three = 0x4008000000000000"

definition double_five :: double where
  "double_five = 0x4014000000000000"

definition double_1e_6 :: double where
  "double_1e_6 = 0x3EB0C6F7A0B5ED8D"

definition double_nan :: double where
  "double_nan = 0x7FF8000000000000"

text \<open>
  Collaborators to instantiate a statement with: the equality of the spec; a client whose
  remote state is a list of predicates and a list of instances and that knows no function;
  and an arithmetic that is only defined for the division by 1.0, which returns the
  dividend (every other operation answers NaN and is used by no statement).
\<close>

definition list_client :: "(node list \<times> param list) externals" where
  "list_client =
     \<lparr>checkNodeEquality = structural_equality,
      toString = (\<lambda>t i. []),
      fromStringFunction = (\<lambda>s. Node_default),
      show_double = (\<lambda>v. []),
      double_add = (\<lambda>x y. double_nan),
      double_sub = (\<lambda>x y. double_nan),
      double_mul = (\<lambda>x y. double_nan),
      double_div = (\<lambda>x y. if y = double_one then x else double_nan),
      removePredicate = (\<lambda>n (ps, insts).
         (True, (filter (\<lambda>x. \<not> structural_equality x n) ps, insts))),
      addPredicate = (\<lambda>n (ps, insts).
         (True, (if list_ex (\<lambda>x. structural_equality x n) ps then ps else ps @ [n], insts))),
      existPredicate = (\<lambda>n (ps, insts). (list_ex (\<lambda>x. structural_equality x n) ps, (ps, insts))),
      getFunction = (\<lambda>s c. (None, c)),
      updateFunction = (\<lambda>n c. (False, c)),
      getInstances = (\<lambda>(ps, insts). (insts, (ps, insts)))\<rparr>"

definition mk_param :: "string \<Rightarrow> param" where
  "mk_param s = Param_default\<lparr>pname := s\<rparr>"

definition mk_node :: "node_kind \<Rightarrow> 32 word list \<Rightarrow> string \<Rightarrow> string list \<Rightarrow> node" where
  "mk_node k cs s ps =
     Node_default\<lparr>node_type := k, children := cs, name := s, parameters := map mk_param ps\<rparr>"

definition mk_number :: "double \<Rightarrow> node" where
  "mk_number v = Node_default\<lparr>node_type := NUMBER, node_value := v\<rparr>"

definition local_state :: "node list \<Rightarrow> node list \<Rightarrow> (node list \<times> param list) state" where
  "local_state preds funs = \<lparr>remote = ([], []), predicates = preds, functions' = funs\<rparr>"

text \<open>The trees \<open>not (not (P a))\<close> and \<open>not (P a)\<close>, and the fact \<open>P(a)\<close> itself.\<close>

definition fact_P_a :: node where
  "fact_P_a = mk_node PREDICATE [] ''P'' [''a'']"

definition tree_not_not :: tree where
  "tree_not_not = \<lparr>nodes = [mk_node NOT [1] [] [], mk_node NOT [2] [] [], fact_P_a]\<rparr>"

definition tree_not :: tree where
  "tree_not = \<lparr>nodes = [mk_node NOT [1] [] [], fact_P_a]\<rparr>"

definition tree_P :: tree where
  "tree_P = \<lparr>nodes = [fact_P_a]\<rparr>"

text \<open>A function \<open>f\<close> without arguments, and a conjunction and a disjunction of it and \<open>P(a)\<close>.\<close>

definition fun_f :: node where
  "fun_f = mk_node FUNCTION [] ''f'' []"

definition tree_and :: tree where
  "tree_and = \<lparr>nodes = [mk_node AND [1, 2] [] [], fun_f, fact_P_a]\<rparr>"

definition tree_or :: tree where
  "tree_or = \<lparr>nodes = [mk_node OR [1, 2] [] [], fun_f, fact_P_a]\<rparr>"

text \<open>The quotient and the scale-down of the number 3.0 by a number \<open>v\<close>.\<close>

definition tree_div :: "double \<Rightarrow> tree" where
  "tree_div v = \<lparr>nodes = [(mk_node EXPRESSION [1, 2] [] [])\<lparr>expression_type := ARITH_DIV\<rparr>,
                           mk_number double_three, mk_number v]\<rparr>"

definition tree_scale_down :: "double \<Rightarrow> tree" where
  "tree_scale_down v =
     \<lparr>nodes = [(mk_node FUNCTION_MODIFIER [1, 2] [] [])\<lparr>modifier_type := SCALE_DOWN\<rparr>,
               mk_number double_three, mk_number v]\<rparr>"

text \<open>
  The condition \<open>exists (?0) (P ?0)\<close>, and a remote state whose objects are \<open>a\<close>, \<open>b\<close> and \<open>c\<close>.
\<close>

definition tree_exists :: tree where
  "tree_exists = \<lparr>nodes = [mk_node EXISTS [1] [] [''?0''], mk_node PREDICATE [] ''P'' [''?0'']]\<rparr>"

definition universe_abc :: "node list \<Rightarrow> (node list \<times> param list) state" where
  "universe_abc ps = \<lparr>remote = (ps, [mk_param ''a'', mk_param ''b'', mk_param ''c'']),
                       predicates = [], functions' = []\<rparr>"

definition fact_P :: "string \<Rightarrow> node" where
  "fact_P x = mk_node PREDICATE [] ''P'' [x]"

text \<open>A tree that is one unresolved \<^verbatim>\<open>PARAMETER\<close> node.\<close>

definition tree_parameter :: tree where
  "tree_parameter = \<lparr>nodes = [mk_node PARAMETER [] [] [''?0'']]\<rparr>"

text \<open>
  A nested condition whose lowering appends one predicate node, and two existential
  conditions over it.
\<close>

definition lower_atom :: "tree \<Rightarrow> unit \<Rightarrow> string list \<Rightarrow> error + tree \<times> node" where
  "lower_atom t d replace =
     Inr (t\<lparr>nodes := nodes t @ [(mk_node PREDICATE [] ''P'' [])\<lparr>node_id := of_nat (length (nodes t))\<rparr>]\<rparr>,
          (mk_node PREDICATE [] ''P'' [])\<lparr>node_id := of_nat (length (nodes t))\<rparr>)"

definition exists_two :: "unit exists_condition" where
  "exists_two = \<lparr>params = [0, 0], cond = Some lower_atom\<rparr>"

definition exists_three :: "unit exists_condition" where
  "exists_three = \<lparr>params = [1, 0, 5], cond = Some lower_atom\<rparr>"

text \<open>
  Trees of more than 256 nodes. An \<^verbatim>\<open>AND\<close> node whose only child, node 257, is the number
  1.0, the nodes between being default nodes; \<open>not (not (P a))\<close> with the inner negation at
  node 257 and \<open>P(a)\<close> at node 258, the nodes between being copies of \<open>P(a)\<close>; and
  \<open>exists (?0) (P ?0)\<close> with the body at node 257 and the number 5.0 at node 1. \<open>Q(a)\<close> is a
  second fact.
\<close>

definition fact_Q_a :: node where
  "fact_Q_a = mk_node PREDICATE [] ''Q'' [''a'']"

definition tree_and_far :: tree where
  "tree_and_far =
     \<lparr>nodes = mk_node AND [257] [] [] # replicate 256 Node_default @ [mk_number double_one]\<rparr>"

definition tree_not_not_far :: tree where
  "tree_not_not_far =
     \<lparr>nodes = mk_node NOT [257] [] [] # replicate 256 fact_P_a
                @ [mk_node NOT [258] [] [], fact_P_a]\<rparr>"

definition tree_exists_far :: tree where
  "tree_exists_far =
     \<lparr>nodes = mk_node EXISTS [257] [] [''?0''] # mk_number double_five
                # replicate 255 Node_default @ [mk_node PREDICATE [] ''P'' [''?0'']]\<rparr>"

subsection \<open>Vocabulary of the statements\<close>

text \<open>How many facts of a collection match a given one.\<close>

definition occurrences :: "'c externals \<Rightarrow> node \<Rightarrow> node list \<Rightarrow> nat" where
  "occurrences ext p preds = length (filter (\<lambda>x. checkNodeEquality ext x p) preds)"

text \<open>The names of the parameters of the node that a lowering returns.\<close>

definition lowered_names :: "error + tree \<times> node \<Rightarrow> error + string list" where
  "lowered_names r = map_sum id (\<lambda>(t, n). map pname (parameters n)) r"

section \<open>Properties\<close>

lemma fixture_simps:
  "node_type (mk_node k cs s ps) = k"
  "children (mk_node k cs s ps) = cs"
  "name (mk_node k cs s ps) = s"
  "parameters (mk_node k cs s ps) = map mk_param ps"
  "pname (mk_param s) = s"
  by (simp_all add: mk_node_def mk_param_def Node_default_def Param_default_def)

lemma number_simps:
  "node_type (mk_number v) = NUMBER" "node_value (mk_number v) = v"
  by (simp_all add: mk_number_def Node_default_def)

text \<open>A child id below 256 is the node id that \<open>evaluate\<close> receives.\<close>

lemma unat_ucast_8: "unat (c :: 32 word) < 256 \<Longrightarrow> unat (ucast c :: 8 word) = unat c"
  by (simp add: unsigned_ucast_eq take_bit_nat_eq_self)

text \<open>The guard \<^verbatim>\<open>std::abs(x) > 1e-5\<close> fails on a NaN and on the doubles up to \<^verbatim>\<open>1e-5\<close>.\<close>

lemma isnan_double_abs: "isnan (double_abs x) \<longleftrightarrow> isnan x"
  by (simp add: isnan_def double_abs_def)

lemma literal_1e_5_not_nan: "\<not> isnan literal_1e_5"
  by (simp add: isnan_def literal_1e_5_def)

lemma double_gt_iff_not_le:
  "double_gt x y \<longleftrightarrow> \<not> isnan x \<and> \<not> isnan y \<and> \<not> double_le x y"
  by (auto simp: double_gt_def double_lt_def double_le_def)

lemma guard_1e_5:
  "double_gt (double_abs x) literal_1e_5 \<longleftrightarrow> \<not> (isnan x \<or> double_le (double_abs x) literal_1e_5)"
  by (auto simp: double_gt_iff_not_le isnan_double_abs literal_1e_5_not_nan)

lemma all_less_3: "(\<forall>i < Suc (Suc (Suc 0)). Q i) \<longleftrightarrow> Q 0 \<and> Q (Suc 0) \<and> Q (Suc (Suc 0))"
  by (auto simp: less_Suc_eq)

lemma all_less_2: "(\<forall>i < Suc (Suc 0). Q i) \<longleftrightarrow> Q 0 \<and> Q (Suc 0)"
  by (auto simp: less_Suc_eq)

subsection \<open>The bound on the depth\<close>

lemma replace_children_loop_mono:
  assumes "\<And>t c. rec t c \<noteq> Inl OutOfFuel \<Longrightarrow> rec' t c = rec t c"
  shows "replace_children_loop rec cs t \<noteq> Inl OutOfFuel \<Longrightarrow>
         replace_children_loop rec' cs t = replace_children_loop rec cs t"
proof (induction cs arbitrary: t)
  case Nil
  show ?case by simp
next
  case (Cons c cs)
  show ?case
  proof (cases "rec t (ucast c)")
    case (Inl e)
    with Cons.prems have "e \<noteq> OutOfFuel" by auto
    with Inl assms [of t "ucast c"] show ?thesis by simp
  next
    case (Inr t')
    with assms [of t "ucast c"] have "rec' t (ucast c) = Inr t'" by simp
    with Inr Cons.prems Cons.IH [of t'] show ?thesis by simp
  qed
qed

lemma replace_params_loop_fuel: "replace_params_loop ps k replace is t \<noteq> Inl OutOfFuel"
  by (induction ps k replace "is" t rule: replace_params_loop.induct)
    (auto simp: set_param_name_def Let_def split: option.splits sum.splits if_splits)

lemma replace_children_param_body_mono:
  assumes "\<And>t c. rec t c \<noteq> Inl OutOfFuel \<Longrightarrow> rec' t c = rec t c"
    and "replace_children_param_body rec tree nid replace \<noteq> Inl OutOfFuel"
  shows "replace_children_param_body rec' tree nid replace
       = replace_children_param_body rec tree nid replace"
proof (cases "length (nodes tree) \<le> unat nid")
  case True
  then show ?thesis by (simp add: replace_children_param_body_def)
next
  case False
  let ?cs = "children (nodes tree ! unat nid)"
  from assms(2) False have "replace_children_loop rec ?cs tree \<noteq> Inl OutOfFuel"
    by (auto simp: replace_children_param_body_def Let_def)
  from replace_children_loop_mono [of rec rec', OF assms(1) this]
  show ?thesis by (simp add: replace_children_param_body_def)
qed

lemma replace_children_param_mono:
  "replace_children_param fuel tree nid replace \<noteq> Inl OutOfFuel \<Longrightarrow>
   replace_children_param (Suc fuel) tree nid replace = replace_children_param fuel tree nid replace"
proof (induction fuel arbitrary: tree nid)
  case 0
  have "replace_children_param_body (\<lambda>t c. replace_children_param 0 t c replace) tree nid replace
      = replace_children_param_body (\<lambda>t c. Inl OutOfFuel) tree nid replace"
    using 0 by (intro replace_children_param_body_mono) (simp_all add: replace_children_param.simps)
  then show ?case by (simp add: replace_children_param.simps)
next
  case (Suc fuel)
  have "replace_children_param_body (\<lambda>t c. replace_children_param (Suc fuel) t c replace)
          tree nid replace
      = replace_children_param_body (\<lambda>t c. replace_children_param fuel t c replace)
          tree nid replace"
    using Suc.prems Suc.IH
    by (intro replace_children_param_body_mono) (simp_all add: replace_children_param.simps)
  then show ?case by (simp add: replace_children_param.simps)
qed


lemma evaluate_AND_loop_mono:
  assumes "\<And>c s. ev c s \<noteq> Inl OutOfFuel \<Longrightarrow> ev' c s = ev c s"
  shows "evaluate_AND_loop ev cs a b st \<noteq> Inl OutOfFuel \<Longrightarrow>
         evaluate_AND_loop ev' cs a b st = evaluate_AND_loop ev cs a b st"
proof (induction cs arbitrary: a b st)
  case Nil
  show ?case by simp
next
  case (Cons c cs)
  show ?case
  proof (cases "ev c st")
    case (Inl e)
    with Cons.prems have "e \<noteq> OutOfFuel" by auto
    with Inl assms [of c st] show ?thesis by simp
  next
    case (Inr p)
    obtain r st' where p: "p = (r, st')" by (cases p)
    with Inr assms [of c st] have "ev' c st = Inr (r, st')" by simp
    with Inr p Cons.prems Cons.IH [of "a \<and> get0 r" "b \<and> get1 r" st'] show ?thesis by simp
  qed
qed

lemma evaluate_OR_loop_mono:
  assumes "\<And>c s. ev c s \<noteq> Inl OutOfFuel \<Longrightarrow> ev' c s = ev c s"
  shows "evaluate_OR_loop ev cs a b st \<noteq> Inl OutOfFuel \<Longrightarrow>
         evaluate_OR_loop ev' cs a b st = evaluate_OR_loop ev cs a b st"
proof (induction cs arbitrary: a b st)
  case Nil
  show ?case by simp
next
  case (Cons c cs)
  show ?case
  proof (cases "ev c st")
    case (Inl e)
    with Cons.prems have "e \<noteq> OutOfFuel" by auto
    with Inl assms [of c st] show ?thesis by simp
  next
    case (Inr p)
    obtain r st' where p: "p = (r, st')" by (cases p)
    with Inr assms [of c st] have "ev' c st = Inr (r, st')" by simp
    with Inr p Cons.prems Cons.IH [of "a \<and> get0 r" "b \<or> get1 r" st'] show ?thesis by simp
  qed
qed

lemma exists_loop_mono:
  assumes "\<And>c s. cand c s \<noteq> Inl OutOfFuel \<Longrightarrow> cand' c s = cand c s"
  shows "exists_loop cand cs st \<noteq> Inl OutOfFuel \<Longrightarrow>
         exists_loop cand' cs st = exists_loop cand cs st"
proof (induction cs arbitrary: st)
  case Nil
  show ?case by simp
next
  case (Cons c cs)
  show ?case
  proof (cases "cand c st")
    case (Inl e)
    with Cons.prems have "e \<noteq> OutOfFuel" by auto
    with Inl assms [of c st] show ?thesis by simp
  next
    case (Inr p)
    obtain r st' where p: "p = (r, st')" by (cases p)
    with Inr assms [of c st] have "cand' c st = Inr (r, st')" by simp
    with Inr p Cons.prems Cons.IH [of st'] show ?thesis by (auto split: if_splits)
  qed
qed

lemma expression_result_fuel:
  "expression_result ext tree op child0 child1 negate left right \<noteq> Inl OutOfFuel"
  by (auto simp: expression_result_def comp_eq_result_def symbol_name_def Let_def
      split: expression_kind.splits sum.splits list.splits if_splits)

lemma commit_function_fuel: "commit_function ext tree st use_state left_id v \<noteq> Inl OutOfFuel"
  by (auto simp: commit_function_def Let_def split: prod.splits if_splits)


lemma evaluate_NOT_mono:
  assumes "\<And>t s a u n b. rec t s a u n b \<noteq> Inl OutOfFuel \<Longrightarrow> rec' t s a u n b = rec t s a u n b"
    and "evaluate_NOT rec tree st apply use_state nid negate \<noteq> Inl OutOfFuel"
  shows "evaluate_NOT rec' tree st apply use_state nid negate
       = evaluate_NOT rec tree st apply use_state nid negate"
  using assms(2) assms(1) by (auto simp: evaluate_NOT_def split: list.splits)

lemma evaluate_EXPRESSION_mono:
  assumes "\<And>t s a u n b. rec t s a u n b \<noteq> Inl OutOfFuel \<Longrightarrow> rec' t s a u n b = rec t s a u n b"
    and "evaluate_EXPRESSION ext rec tree st apply use_state nid negate \<noteq> Inl OutOfFuel"
  shows "evaluate_EXPRESSION ext rec' tree st apply use_state nid negate
       = evaluate_EXPRESSION ext rec tree st apply use_state nid negate"
proof (cases "children (nodes tree ! unat nid)")
  case Nil
  then show ?thesis by (simp add: evaluate_EXPRESSION_def)
next
  case (Cons c0 others)
  show ?thesis
  proof (cases "rec tree st apply use_state (ucast c0) negate")
    case (Inl e)
    with assms(2) Cons have "e \<noteq> OutOfFuel" by (auto simp: evaluate_EXPRESSION_def)
    with Inl assms(1)[of tree st "apply" use_state "ucast c0" negate] Cons show ?thesis
      by (simp add: evaluate_EXPRESSION_def)
  next
    case (Inr p)
    obtain left st1 where p: "p = (left, st1)" by (cases p)
    with Inr assms(1)[of tree st "apply" use_state "ucast c0" negate]
    have l': "rec' tree st apply use_state (ucast c0) negate = Inr (left, st1)" by simp
    show ?thesis
    proof (cases others)
      case Nil
      with Cons Inr p l' show ?thesis by (simp add: evaluate_EXPRESSION_def)
    next
      case c1: (Cons c1 more)
      show ?thesis
      proof (cases "rec tree st1 apply use_state (ucast c1) negate")
        case (Inl e)
        with assms(2) Cons c1 Inr p have "e \<noteq> OutOfFuel" by (auto simp: evaluate_EXPRESSION_def)
        with Inl assms(1)[of tree st1 "apply" use_state "ucast c1" negate] Cons c1 Inr p l'
        show ?thesis by (simp add: evaluate_EXPRESSION_def)
      next
        case r: (Inr q)
        with assms(1)[of tree st1 "apply" use_state "ucast c1" negate]
        have "rec' tree st1 apply use_state (ucast c1) negate = Inr q" by simp
        with r Cons c1 Inr p l' show ?thesis by (simp add: evaluate_EXPRESSION_def)
      qed
    qed
  qed
qed

lemma evaluate_FUNCTION_MODIFIER_mono:
  assumes "\<And>t s a u n b. rec t s a u n b \<noteq> Inl OutOfFuel \<Longrightarrow> rec' t s a u n b = rec t s a u n b"
    and "evaluate_FUNCTION_MODIFIER ext rec tree st apply use_state nid negate \<noteq> Inl OutOfFuel"
  shows "evaluate_FUNCTION_MODIFIER ext rec' tree st apply use_state nid negate
       = evaluate_FUNCTION_MODIFIER ext rec tree st apply use_state nid negate"
proof (cases "children (nodes tree ! unat nid)")
  case Nil
  then show ?thesis by (simp add: evaluate_FUNCTION_MODIFIER_def)
next
  case (Cons c0 others)
  show ?thesis
  proof (cases "rec tree st apply use_state (ucast c0) negate")
    case (Inl e)
    with assms(2) Cons have "e \<noteq> OutOfFuel" by (auto simp: evaluate_FUNCTION_MODIFIER_def)
    with Inl assms(1)[of tree st "apply" use_state "ucast c0" negate] Cons show ?thesis
      by (simp add: evaluate_FUNCTION_MODIFIER_def)
  next
    case (Inr p)
    obtain left st1 where p: "p = (left, st1)" by (cases p)
    with Inr assms(1)[of tree st "apply" use_state "ucast c0" negate]
    have l': "rec' tree st apply use_state (ucast c0) negate = Inr (left, st1)" by simp
    show ?thesis
    proof (cases others)
      case Nil
      with Cons Inr p l' show ?thesis by (simp add: evaluate_FUNCTION_MODIFIER_def)
    next
      case c1: (Cons c1 more)
      show ?thesis
      proof (cases "rec tree st1 apply use_state (ucast c1) negate")
        case (Inl e)
        with assms(2) Cons c1 Inr p have "e \<noteq> OutOfFuel"
          by (auto simp: evaluate_FUNCTION_MODIFIER_def)
        with Inl assms(1)[of tree st1 "apply" use_state "ucast c1" negate] Cons c1 Inr p l'
        show ?thesis by (simp add: evaluate_FUNCTION_MODIFIER_def)
      next
        case r: (Inr q)
        with assms(1)[of tree st1 "apply" use_state "ucast c1" negate]
        have "rec' tree st1 apply use_state (ucast c1) negate = Inr q" by simp
        with r Cons c1 Inr p l' show ?thesis by (simp add: evaluate_FUNCTION_MODIFIER_def)
      qed
    qed
  qed
qed

lemma exists_candidate_mono:
  assumes "\<And>t s a u n b. rec t s a u n b \<noteq> Inl OutOfFuel \<Longrightarrow> rec' t s a u n b = rec t s a u n b"
    and "\<And>t n r. rcp t n r \<noteq> Inl OutOfFuel \<Longrightarrow> rcp' t n r = rcp t n r"
    and "exists_candidate rcp rec tree apply use_state nid negate pv st \<noteq> Inl OutOfFuel"
  shows "exists_candidate rcp' rec' tree apply use_state nid negate pv st
       = exists_candidate rcp rec tree apply use_state nid negate pv st"
proof -
  let ?r = "make_replace (parameters (nodes tree ! unat nid)) pv"
  show ?thesis
  proof (cases "rcp tree nid ?r")
    case (Inl e)
    with assms(3) have "e \<noteq> OutOfFuel" by (auto simp: exists_candidate_def)
    with Inl assms(2)[of tree nid ?r] show ?thesis by (simp add: exists_candidate_def)
  next
    case (Inr t')
    with assms(2)[of tree nid ?r] have r': "rcp' tree nid ?r = Inr t'" by simp
    show ?thesis
    proof (cases "length (nodes t') \<le> unat nid \<or> children (nodes t' ! unat nid) = []")
      case True
      with Inr r' show ?thesis by (auto simp: exists_candidate_def)
    next
      case False
      then obtain c cs where c: "children (nodes t' ! unat nid) = c # cs"
        by (cases "children (nodes t' ! unat nid)") auto
      with False Inr assms(3) have "rec t' st apply use_state (ucast c) negate \<noteq> Inl OutOfFuel"
        by (auto simp: exists_candidate_def)
      from assms(1) [OF this] c False Inr r' show ?thesis
        by (simp add: exists_candidate_def)
    qed
  qed
qed

lemma evaluate_EXISTS_mono:
  assumes "\<And>t s a u n b. rec t s a u n b \<noteq> Inl OutOfFuel \<Longrightarrow> rec' t s a u n b = rec t s a u n b"
    and "\<And>t n r. rcp t n r \<noteq> Inl OutOfFuel \<Longrightarrow> rcp' t n r = rcp t n r"
    and "evaluate_EXISTS rcp ext rec tree st apply use_state nid negate \<noteq> Inl OutOfFuel"
  shows "evaluate_EXISTS rcp' ext rec' tree st apply use_state nid negate
       = evaluate_EXISTS rcp ext rec tree st apply use_state nid negate"
proof -
  have "exists_loop (exists_candidate rcp rec tree apply use_state nid negate) cs s \<noteq> Inl OutOfFuel
    \<Longrightarrow> exists_loop (exists_candidate rcp' rec' tree apply use_state nid negate) cs s
      = exists_loop (exists_candidate rcp rec tree apply use_state nid negate) cs s" for cs s
    by (rule exists_loop_mono) (rule exists_candidate_mono [OF assms(1,2)])
  with assms(3) show ?thesis
    by (auto simp: evaluate_EXISTS_def split: prod.splits if_splits)
qed

lemma evaluate_body_mono:
  assumes "\<And>t s a u n b. rec t s a u n b \<noteq> Inl OutOfFuel \<Longrightarrow> rec' t s a u n b = rec t s a u n b"
    and "\<And>t n r. rcp t n r \<noteq> Inl OutOfFuel \<Longrightarrow> rcp' t n r = rcp t n r"
    and "evaluate_body rcp ext rec tree st apply use_state nid negate \<noteq> Inl OutOfFuel"
  shows "evaluate_body rcp' ext rec' tree st apply use_state nid negate
       = evaluate_body rcp ext rec tree st apply use_state nid negate"
proof (cases "nodes tree = [] \<or> length (nodes tree) \<le> unat nid")
  case True
  then show ?thesis by (auto simp: evaluate_body_def)
next
  case False
  let ?n = "nodes tree ! unat nid"
  let ?ev = "\<lambda>rec child_id st'. rec tree st' apply use_state (ucast child_id) negate"
  have ev: "?ev rec c s \<noteq> Inl OutOfFuel \<Longrightarrow> ?ev rec' c s = ?ev rec c s" for c s
    by (rule assms(1))
  show ?thesis
  proof (cases "node_type ?n")
    case AND
    with False assms(3) have "evaluate_AND_loop (?ev rec) (children ?n) True True st \<noteq> Inl OutOfFuel"
      by (simp add: evaluate_body_def)
    from evaluate_AND_loop_mono [of "?ev rec" "?ev rec'", OF ev this] AND False show ?thesis
      by (simp add: evaluate_body_def)
  next
    case OR
    with False assms(3) have "evaluate_OR_loop (?ev rec) (children ?n) True False st \<noteq> Inl OutOfFuel"
      by (simp add: evaluate_body_def)
    from evaluate_OR_loop_mono [of "?ev rec" "?ev rec'", OF ev this] OR False show ?thesis
      by (simp add: evaluate_body_def)
  next
    case NOT
    with False assms(3) have "evaluate_NOT rec tree st apply use_state nid negate \<noteq> Inl OutOfFuel"
      by (simp add: evaluate_body_def)
    from evaluate_NOT_mono [of rec rec', OF assms(1) this] NOT False show ?thesis
      by (simp add: evaluate_body_def)
  next
    case EXPRESSION
    with False assms(3)
    have "evaluate_EXPRESSION ext rec tree st apply use_state nid negate \<noteq> Inl OutOfFuel"
      by (simp add: evaluate_body_def)
    from evaluate_EXPRESSION_mono [of rec rec', OF assms(1) this] EXPRESSION False show ?thesis
      by (simp add: evaluate_body_def)
  next
    case FUNCTION_MODIFIER
    with False assms(3)
    have "evaluate_FUNCTION_MODIFIER ext rec tree st apply use_state nid negate \<noteq> Inl OutOfFuel"
      by (simp add: evaluate_body_def)
    from evaluate_FUNCTION_MODIFIER_mono [of rec rec', OF assms(1) this] FUNCTION_MODIFIER False
    show ?thesis by (simp add: evaluate_body_def)
  next
    case EXISTS
    with False assms(3)
    have "evaluate_EXISTS rcp ext rec tree st apply use_state nid negate \<noteq> Inl OutOfFuel"
      by (simp add: evaluate_body_def)
    from evaluate_EXISTS_mono [of rec rec' rcp rcp', OF assms(1,2) this] EXISTS False
    show ?thesis by (simp add: evaluate_body_def)
  next
    case PARAMETER
    have "evaluate_EXISTS rcp ext rec tree st apply use_state nid negate \<noteq> Inl OutOfFuel \<Longrightarrow>
        evaluate_EXISTS rcp' ext rec' tree st apply use_state nid negate
          = evaluate_EXISTS rcp ext rec tree st apply use_state nid negate"
      by (rule evaluate_EXISTS_mono [OF assms(1,2)])
    with PARAMETER False assms(3) show ?thesis
      by (auto simp: evaluate_body_def evaluate_PARAMETER_def split: list.splits if_splits)
  qed (insert False, simp_all add: evaluate_body_def)
qed

text \<open>
  The bound on the depth only cuts evaluations short: what \<open>evaluate\<close> returns within a
  bound, a result or undefined behaviour, it returns within every larger bound.
\<close>

lemma evaluate_fuel_mono:
  "evaluate fuel ext tree st apply use_state nid negate \<noteq> Inl OutOfFuel \<Longrightarrow>
   evaluate (Suc fuel) ext tree st apply use_state nid negate
     = evaluate fuel ext tree st apply use_state nid negate"
proof (induction fuel arbitrary: tree st "apply" use_state nid negate)
  case 0
  have "evaluate_body (replace_children_param (Suc 0)) ext (evaluate 0 ext)
          tree st apply use_state nid negate
      = evaluate_body (replace_children_param 0) ext (\<lambda>t st a u n neg. Inl OutOfFuel)
          tree st apply use_state nid negate"
    using 0 by (intro evaluate_body_mono replace_children_param_mono) (simp_all add: evaluate.simps)
  then show ?case by (simp add: evaluate.simps)
next
  case (Suc fuel)
  have "evaluate_body (replace_children_param (Suc (Suc fuel))) ext (evaluate (Suc fuel) ext)
          tree st apply use_state nid negate
      = evaluate_body (replace_children_param (Suc fuel)) ext (evaluate fuel ext)
          tree st apply use_state nid negate"
    using Suc.prems Suc.IH
    by (intro evaluate_body_mono replace_children_param_mono) (simp_all add: evaluate.simps)
  then show ?case by (simp add: evaluate.simps)
qed

lemma evaluate_fuel_le:
  assumes "evaluate fuel ext tree st apply use_state nid negate = Inr r" and "fuel \<le> fuel'"
  shows "evaluate fuel' ext tree st apply use_state nid negate = Inr r"
  using assms(2,1)
proof (induction fuel' rule: dec_induct)
  case base
  then show ?case .
next
  case (step k)
  then have "evaluate k ext tree st apply use_state nid negate = Inr r" by simp
  then show ?case by (simp add: evaluate_fuel_mono)
qed

lemma evaluate_fuel_unique:
  assumes "evaluate fuel ext tree st apply use_state nid negate = Inr r"
    and "evaluate fuel' ext tree st apply use_state nid negate = Inr r'"
  shows "r = r'"
proof (cases "fuel \<le> fuel'")
  case True
  from evaluate_fuel_le [OF assms(1) True] assms(2) show ?thesis by simp
next
  case False
  then have "fuel' \<le> fuel" by simp
  from evaluate_fuel_le [OF assms(2) this] assms(1) show ?thesis by simp
qed

subsection \<open>Cartesian product\<close>

lemma cart_product_fold:
  assumes IH: "\<And>rvvi rvi.
    cart_product rvvi rvi rest = (rvvi @ map ((@) rvi) (product_lists rest), rvi)"
  shows "fold (\<lambda>it (rvvi', rvi').
            case cart_product rvvi' (rvi' @ [it]) rest of
              (rvvi'', rvi'') \<Rightarrow> (rvvi'', butlast rvi''))
          mevi (rvvi, rvi)
       = (rvvi @ concat (map (\<lambda>x. map ((@) (rvi @ [x])) (product_lists rest)) mevi), rvi)"
  by (induction mevi arbitrary: rvvi) (simp_all add: IH)

lemma cart_product_eq:
  "cart_product rvvi rvi vs = (rvvi @ map ((@) rvi) (product_lists vs), rvi)"
proof (induction vs arbitrary: rvvi rvi)
  case Nil
  show ?case by simp
next
  case (Cons mevi rest)
  have "concat (map (\<lambda>x. map ((@) (rvi @ [x])) (product_lists rest)) mevi)
      = map ((@) rvi) (concat (map (\<lambda>x. map (Cons x) (product_lists rest)) mevi))"
    by (induction mevi) simp_all
  then show ?case
    by (simp add: cart_product_fold [OF Cons.IH])
qed

lemma cart_product_start: "cart_product [] [] vs = (product_lists vs, [])"
proof -
  have "map ((@) []) (product_lists vs) = product_lists vs"
    by (rule map_idI) simp
  then show ?thesis by (simp add: cart_product_eq)
qed

lemma length_product_lists_prod: "length (product_lists xss) = prod_list (map length xss)"
  by (induction xss) (simp_all add: length_concat o_def sum_list_triv)

lemma set_product_lists_nth:
  "set (product_lists xss) =
     {t. length t = length xss \<and> (\<forall>i < length xss. t ! i \<in> set (xss ! i))}"
  unfolding product_lists_set by (auto simp: list_all2_conv_all_nth)

text \<open>
  C8. Started on two empty accumulators, \<open>cart_product\<close> returns the n-ary product of its
  input lists and leaves the current tuple empty again: the result is the library's
  \<^const>\<open>product_lists\<close>; it has as many tuples as the product of the sizes of the lists; its
  tuples are exactly the sequences that take their i-th element from the i-th list; the
  tuples of a first list \<open>xs\<close> and further lists \<open>vs\<close> come in the order of \<open>xs\<close>, each
  element of \<open>xs\<close> running through all tuples of \<open>vs\<close> before the next one (so the last
  list varies fastest); no input list at all gives the one empty tuple.
\<close>

theorem cart_product_standard:
  "fst (cart_product [] [] vs) = product_lists vs
   \<and> snd (cart_product [] [] vs) = []
   \<and> length (fst (cart_product [] [] vs)) = prod_list (map length vs)
   \<and> set (fst (cart_product [] [] vs)) =
       {t. length t = length vs \<and> (\<forall>i < length vs. t ! i \<in> set (vs ! i))}
   \<and> fst (cart_product [] [] (xs # vs)) =
       concat (map (\<lambda>x. map ((#) x) (fst (cart_product [] [] vs))) xs)
   \<and> fst (cart_product [] [] []) = [[]]"
  by (simp add: cart_product_start length_product_lists_prod set_product_lists_nth
      del: cart_product.simps)

theorem cart_product_standard_witness:
  "fst (cart_product [] [] [[''a'', ''b''], [''x'', ''y'', ''z'']]) =
     [[''a'', ''x''], [''a'', ''y''], [''a'', ''z''],
      [''b'', ''x''], [''b'', ''y''], [''b'', ''z'']]
   \<and> length (fst (cart_product [] [] [[''a'', ''b''], [''x'', ''y'', ''z'']])) = 6"
  using cart_product_standard [of "[[''a'', ''b''], [''x'', ''y'', ''z'']]" "[]"]
  by simp

subsection \<open>The empty tree\<close>

text \<open>
  C10. On a tree without nodes \<open>evaluate\<close> returns (true, true, 0) and the state it was
  given, whatever the node id, the flags, the backend and the bound on the depth.
\<close>

theorem evaluate_empty_tree:
  "nodes tree = [] \<Longrightarrow>
   evaluate fuel ext tree st apply use_state nid negate = Inr ((True, True, 0), st)"
  by (cases fuel) (simp_all add: evaluate.simps evaluate_body_def)

theorem evaluate_empty_tree_witness:
  "nodes \<lparr>nodes = []\<rparr> = []
   \<and> evaluate 0 list_client \<lparr>nodes = []\<rparr>
       (local_state [mk_node PREDICATE [] ''P'' [''a'']] []) True False 7 True
     = Inr ((True, True, 0), local_state [mk_node PREDICATE [] ''P'' [''a'']] [])"
  using evaluate_empty_tree [of "\<lparr>nodes = []\<rparr>" 0 list_client
      "local_state [mk_node PREDICATE [] ''P'' [''a'']] []" True False 7 True]
  by simp

subsection \<open>Negation\<close>

lemma evaluate_NOT_step:
  assumes "unat nid < length (nodes tree)"
    and "node_type (nodes tree ! unat nid) = NOT"
    and "children (nodes tree ! unat nid) = c # cs"
  shows "evaluate (Suc fuel) ext tree st apply use_state nid negate
       = evaluate fuel ext tree st apply use_state (ucast c) (\<not> negate)"
  using assms by (auto simp: evaluate.simps evaluate_body_def evaluate_NOT_def)

lemma evaluate_NOT_zero:
  assumes "unat nid < length (nodes tree)"
    and "node_type (nodes tree ! unat nid) = NOT"
  shows "evaluate 0 ext tree st apply use_state nid negate \<noteq> Inr r"
  using assms by (auto simp: evaluate.simps evaluate_body_def evaluate_NOT_def split: list.splits)

text \<open>
  What two \<^verbatim>\<open>NOT\<close> nodes do, on the nodes the code reaches (the child ids as \<open>evaluate\<close>
  receives them, in 8 bits): evaluating the outer node with two more levels of depth is
  evaluating the node under the inner one, with the same triple and the same state, or
  the same error, for every backend, state and flags.
\<close>

lemma double_negation:
  assumes "unat nid < length (nodes tree)"
    and "node_type (nodes tree ! unat nid) = NOT"
    and "children (nodes tree ! unat nid) = c1 # cs1"
    and "unat (ucast c1 :: 8 word) < length (nodes tree)"
    and "node_type (nodes tree ! unat (ucast c1 :: 8 word)) = NOT"
    and "children (nodes tree ! unat (ucast c1 :: 8 word)) = c2 # cs2"
  shows "evaluate (Suc (Suc fuel)) ext tree st apply use_state nid negate
       = evaluate fuel ext tree st apply use_state (ucast c2) negate
    \<and> ((\<exists>k. evaluate k ext tree st apply use_state nid negate = Inr r)
       \<longleftrightarrow> (\<exists>k. evaluate k ext tree st apply use_state (ucast c2) negate = Inr r))"
proof (intro conjI)
  show eq: "evaluate (Suc (Suc fuel)) ext tree st apply use_state nid negate
       = evaluate fuel ext tree st apply use_state (ucast c2) negate" for fuel
    using assms by (simp add: evaluate_NOT_step)
  show "(\<exists>k. evaluate k ext tree st apply use_state nid negate = Inr r)
       \<longleftrightarrow> (\<exists>k. evaluate k ext tree st apply use_state (ucast c2) negate = Inr r)"
  proof
    assume "\<exists>k. evaluate k ext tree st apply use_state nid negate = Inr r"
    then obtain k where k: "evaluate k ext tree st apply use_state nid negate = Inr r" ..
    show "\<exists>k. evaluate k ext tree st apply use_state (ucast c2) negate = Inr r"
    proof (cases k)
      case 0
      with k evaluate_NOT_zero [OF assms(1,2)] show ?thesis by blast
    next
      case (Suc k1)
      show ?thesis
      proof (cases k1)
        case 0
        with Suc k have "evaluate 0 ext tree st apply use_state (ucast c1) (\<not> negate) = Inr r"
          by (simp add: evaluate_NOT_step [OF assms(1-3)])
        with evaluate_NOT_zero [OF assms(4,5)] show ?thesis by blast
      next
        case (Suc k2)
        with \<open>k = Suc k1\<close> k eq show ?thesis by auto
      qed
    qed
  next
    assume "\<exists>k. evaluate k ext tree st apply use_state (ucast c2) negate = Inr r"
    then obtain k where "evaluate k ext tree st apply use_state (ucast c2) negate = Inr r" ..
    with eq have "evaluate (Suc (Suc k)) ext tree st apply use_state nid negate = Inr r" by simp
    then show "\<exists>k. evaluate k ext tree st apply use_state nid negate = Inr r" ..
  qed
qed

lemma double_negation_example:
  "evaluate 2 list_client tree_not_not (local_state [fact_P_a] []) False True 0 False
   = Inr ((True, True, 0), local_state [fact_P_a] [])
   \<and> evaluate 0 list_client tree_not_not (local_state [fact_P_a] []) False True 2 False
   = Inr ((True, True, 0), local_state [fact_P_a] [])"
proof -
  have h: "unat (0 :: 8 word) < length (nodes tree_not_not)"
    "node_type (nodes tree_not_not ! unat (0 :: 8 word)) = NOT"
    "children (nodes tree_not_not ! unat (0 :: 8 word)) = 1 # []"
    "unat (ucast (1 :: 32 word) :: 8 word) < length (nodes tree_not_not)"
    "node_type (nodes tree_not_not ! unat (ucast (1 :: 32 word) :: 8 word)) = NOT"
    "children (nodes tree_not_not ! unat (ucast (1 :: 32 word) :: 8 word)) = 2 # []"
    by (simp_all add: tree_not_not_def fixture_simps)
  have e: "evaluate 0 list_client tree_not_not (local_state [fact_P_a] []) False True 2 False
     = Inr ((True, True, 0), local_state [fact_P_a] [])"
    by (simp add: evaluate.simps evaluate_body_def tree_not_not_def fact_P_a_def fixture_simps
        evaluate_PREDICATE_def local_state_def list_client_def structural_equality_def)
  from double_negation [OF h, of 0 list_client "local_state [fact_P_a] []" False True False] e
  show ?thesis by (simp add: numeral_2_eq_2)
qed

text \<open>
  C7. The claim equates \<open>not (not X)\<close> with \<open>X\<close> for every node \<open>X\<close>. The parameter
  \<^verbatim>\<open>node_id\<close> of \<open>evaluate\<close> has 8 bits and the child ids have 32: in a tree of 259 nodes
  whose node 0 negates node 257, which negates \<open>P(a)\<close> at node 258, the outer negation
  evaluates node 1 (257 modulo 256), a copy of \<open>P(a)\<close>, under a single negation. On a state
  that holds \<open>P(a)\<close> the double negation is false, and \<open>P(a)\<close> evaluated by its id is true.
\<close>

theorem double_negation_narrowed:
  "length (nodes tree_not_not_far) = 259
   \<and> nodes tree_not_not_far ! 0 = mk_node NOT [257] [] []
   \<and> nodes tree_not_not_far ! 257 = mk_node NOT [258] [] []
   \<and> nodes tree_not_not_far ! 258 = fact_P_a
   \<and> evaluate 2 list_client tree_not_not_far (local_state [fact_P_a] []) False True 0 False
       = Inr ((True, False, 0), local_state [fact_P_a] [])
   \<and> evaluate 2 list_client tree_not_not_far (local_state [fact_P_a] []) False True
         (ucast (258 :: 32 word)) False
       = Inr ((True, True, 0), local_state [fact_P_a] [])"
  by code_simp

subsection \<open>Facts of the local state\<close>

lemma find_if_le: "find_if P xs \<le> length xs"
  by (induction xs) simp_all

lemma find_if_end_iff: "find_if P xs = length xs \<longleftrightarrow> (\<forall>x \<in> set xs. \<not> P x)"
  using find_if_le [of P] by (induction xs) (auto simp: le_Suc_eq)

lemma find_if_split:
  "\<exists>x \<in> set xs. P x \<Longrightarrow>
   \<exists>before x after. xs = before @ x # after \<and> P x \<and> (\<forall>y \<in> set before. \<not> P y)
     \<and> find_if P xs = length before"
proof (induction xs)
  case Nil
  then show ?case by simp
next
  case (Cons a xs)
  show ?case
  proof (cases "P a")
    case True
    then have "a # xs = [] @ a # xs \<and> P a \<and> (\<forall>y \<in> set []. \<not> P y)
        \<and> find_if P (a # xs) = length ([] :: 'a list)"
      by simp
    then show ?thesis by blast
  next
    case False
    with Cons.prems have "\<exists>x \<in> set xs. P x" by auto
    from Cons.IH [OF this] obtain before x after where
      "xs = before @ x # after" "P x" "\<forall>y \<in> set before. \<not> P y" "find_if P xs = length before"
      by blast
    with False have "a # xs = (a # before) @ x # after \<and> P x \<and> (\<forall>y \<in> set (a # before). \<not> P y)
        \<and> find_if P (a # xs) = length (a # before)"
      by simp
    then show ?thesis by blast
  qed
qed

lemma erase_split: "erase (before @ x # after) (length before) = before @ after"
  by (simp add: erase_def)

lemma evaluate_PREDICATE_step:
  assumes "unat nid < length (nodes tree)"
    and "node_type (nodes tree ! unat nid) = PREDICATE"
  shows "evaluate fuel ext tree st apply use_state nid negate
       = evaluate_PREDICATE ext (nodes tree ! unat nid) st apply use_state negate"
  using assms by (cases fuel) (auto simp: evaluate.simps evaluate_body_def)

text \<open>
  C3, amended. Let a \<^verbatim>\<open>NOT\<close> node have as first child, with an id below 256, the
  \<^verbatim>\<open>PREDICATE\<close> node \<open>p\<close>, and apply it to a local state. If the state holds a fact that
  matches \<open>p\<close>, the first such fact is erased (the facts before and after it stay, in
  their order), the state holds one occurrence less, and the result is (true, false, 0);
  a state that held exactly one occurrence holds none afterwards. If it holds none, the
  result is (true, false, 0) and the state is returned as it was: nothing is added.
\<close>

theorem apply_not_predicate:
  assumes "unat nid < length (nodes tree)"
    and "node_type (nodes tree ! unat nid) = NOT"
    and "children (nodes tree ! unat nid) = c # cs"
    and "unat c < 256"
    and "unat c < length (nodes tree)"
    and "node_type (nodes tree ! unat c) = PREDICATE"
    and "p = nodes tree ! unat c"
  shows "((\<exists>x \<in> set (predicates st). checkNodeEquality ext x p) \<longrightarrow>
           (\<exists>before x after.
              predicates st = before @ x # after
              \<and> checkNodeEquality ext x p
              \<and> (\<forall>y \<in> set before. \<not> checkNodeEquality ext y p)
              \<and> evaluate (Suc fuel) ext tree st True True nid False
                  = Inr ((True, False, 0), st\<lparr>predicates := before @ after\<rparr>)
              \<and> occurrences ext p (before @ after) + 1 = occurrences ext p (predicates st)
              \<and> (occurrences ext p (predicates st) = 1 \<longrightarrow>
                    (\<forall>y \<in> set (before @ after). \<not> checkNodeEquality ext y p))))
       \<and> ((\<forall>x \<in> set (predicates st). \<not> checkNodeEquality ext x p) \<longrightarrow>
            evaluate (Suc fuel) ext tree st True True nid False = Inr ((True, False, 0), st))"
proof -
  let ?P = "\<lambda>x. checkNodeEquality ext x p"
  have child: "unat (ucast c :: 8 word) = unat c"
    using assms(4) by (rule unat_ucast_8)
  have step: "evaluate (Suc fuel) ext tree st True True nid False
      = evaluate_PREDICATE ext p st True True True"
    using assms child by (simp add: evaluate_NOT_step evaluate_PREDICATE_step)
  have absent: "evaluate (Suc fuel) ext tree st True True nid False = Inr ((True, False, 0), st)"
    if "\<forall>x \<in> set (predicates st). \<not> ?P x"
  proof -
    from that have "find_if ?P (predicates st) = length (predicates st)"
      by (simp add: find_if_end_iff)
    then show ?thesis by (simp add: step evaluate_PREDICATE_def)
  qed
  have present: "\<exists>before x after.
              predicates st = before @ x # after \<and> ?P x \<and> (\<forall>y \<in> set before. \<not> ?P y)
              \<and> evaluate (Suc fuel) ext tree st True True nid False
                  = Inr ((True, False, 0), st\<lparr>predicates := before @ after\<rparr>)
              \<and> occurrences ext p (before @ after) + 1 = occurrences ext p (predicates st)
              \<and> (occurrences ext p (predicates st) = 1 \<longrightarrow>
                    (\<forall>y \<in> set (before @ after). \<not> ?P y))"
    if "\<exists>x \<in> set (predicates st). ?P x"
  proof -
    from find_if_split [of "predicates st" ?P, OF that] obtain before x after where
      d: "predicates st = before @ x # after" "?P x" "\<forall>y \<in> set before. \<not> ?P y"
        "find_if ?P (predicates st) = length before"
      by blast
    have e: "evaluate (Suc fuel) ext tree st True True nid False
        = Inr ((True, False, 0), st\<lparr>predicates := before @ after\<rparr>)"
      using d by (simp add: step evaluate_PREDICATE_def erase_split)
    have cnt: "occurrences ext p (before @ after) + 1 = occurrences ext p (predicates st)"
      using d(1,2) by (simp add: occurrences_def)
    have one: "\<forall>y \<in> set (before @ after). \<not> ?P y" if "occurrences ext p (predicates st) = 1"
    proof -
      from that cnt have "length (filter ?P (before @ after)) = 0"
        by (simp add: occurrences_def)
      then have "filter ?P (before @ after) = []" by simp
      then show ?thesis by (simp only: filter_empty_conv)
    qed
    from d e cnt one show ?thesis by blast
  qed
  from absent present show ?thesis by blast
qed

text \<open>
  The claim as stated fails on a state that holds \<open>P(a)\<close> twice: \<open>not (P a)\<close> erases the
  first occurrence only, and the state returned still holds \<open>P(a)\<close>.
\<close>

theorem apply_not_predicate_counterexample:
  "evaluate 1 list_client tree_not (local_state [fact_P_a, fact_P_a] []) True True 0 False
     = Inr ((True, False, 0), local_state [fact_P_a] [])
   \<and> occurrences list_client fact_P_a (predicates (local_state [fact_P_a] [])) = 1"
  by code_simp

theorem apply_not_predicate_witness:
  "evaluate 1 list_client tree_not (local_state [fact_P_a] []) True True 0 False
     = Inr ((True, False, 0), local_state [] [])
   \<and> evaluate 1 list_client tree_not (local_state [] []) True True 0 False
     = Inr ((True, False, 0), local_state [] [])"
proof -
  have h: "unat (0 :: 8 word) < length (nodes tree_not)"
    "node_type (nodes tree_not ! unat (0 :: 8 word)) = NOT"
    "children (nodes tree_not ! unat (0 :: 8 word)) = 1 # []"
    "unat (1 :: 32 word) < 256"
    "unat (1 :: 32 word) < length (nodes tree_not)"
    "node_type (nodes tree_not ! unat (1 :: 32 word)) = PREDICATE"
    "fact_P_a = nodes tree_not ! unat (1 :: 32 word)"
    by (simp_all add: tree_not_def fact_P_a_def fixture_simps)
  have present: "\<exists>x \<in> set (predicates (local_state [fact_P_a] [])).
      checkNodeEquality list_client x fact_P_a"
    by (simp add: local_state_def list_client_def structural_equality_def)
  have absent: "\<forall>x \<in> set (predicates (local_state [] [])).
      \<not> checkNodeEquality list_client x fact_P_a"
    by (simp add: local_state_def)
  from apply_not_predicate [OF h, of "local_state [fact_P_a] []" list_client 0] present
  obtain before x after where
    "predicates (local_state [fact_P_a] []) = before @ x # after"
    "evaluate (Suc 0) list_client tree_not (local_state [fact_P_a] []) True True 0 False
       = Inr ((True, False, 0), (local_state [fact_P_a] [])\<lparr>predicates := before @ after\<rparr>)"
    by blast
  then have "evaluate (Suc 0) list_client tree_not (local_state [fact_P_a] []) True True 0 False
       = Inr ((True, False, 0), local_state [] [])"
    by (auto simp: local_state_def Cons_eq_append_conv)
  moreover from apply_not_predicate [OF h, of "local_state [] []" list_client 0] absent
  have "evaluate (Suc 0) list_client tree_not (local_state [] []) True True 0 False
       = Inr ((True, False, 0), local_state [] [])"
    by blast
  ultimately show ?thesis by simp
qed

text \<open>
  C6, amended. Let \<open>p\<close> be a \<^verbatim>\<open>PREDICATE\<close> node that matches itself. Applying it to a local
  state succeeds with truth; applying it again to the state returned changes nothing; and
  the state returned holds as many facts matching \<open>p\<close> as the state before, or one if that
  held none. So a state with at most one such fact holds exactly one after the two
  applications.
\<close>

theorem apply_predicate_twice:
  assumes "unat nid < length (nodes tree)"
    and "node_type (nodes tree ! unat nid) = PREDICATE"
    and "p = nodes tree ! unat nid"
    and "checkNodeEquality ext p p"
  shows "\<exists>st1. evaluate fuel ext tree st True True nid False = Inr ((True, True, 0), st1)
          \<and> evaluate fuel ext tree st1 True True nid False = Inr ((True, True, 0), st1)
          \<and> occurrences ext p (predicates st1) = max 1 (occurrences ext p (predicates st))
          \<and> (occurrences ext p (predicates st) \<le> 1 \<longrightarrow> occurrences ext p (predicates st1) = 1)"
proof -
  let ?P = "\<lambda>x. checkNodeEquality ext x p"
  have step: "evaluate fuel ext tree s True True nid False
      = evaluate_PREDICATE ext p s True True False" for s
    using assms by (simp add: evaluate_PREDICATE_step)
  show ?thesis
  proof (cases "\<exists>x \<in> set (predicates st). ?P x")
    case True
    then have ne: "find_if ?P (predicates st) \<noteq> length (predicates st)"
      by (simp add: find_if_end_iff)
    from True have "filter ?P (predicates st) \<noteq> []"
      by (simp add: filter_empty_conv)
    then have "1 \<le> occurrences ext p (predicates st)"
      by (cases "filter ?P (predicates st)") (simp_all add: occurrences_def)
    with ne have "evaluate fuel ext tree st True True nid False = Inr ((True, True, 0), st)
          \<and> evaluate fuel ext tree st True True nid False = Inr ((True, True, 0), st)
          \<and> occurrences ext p (predicates st) = max 1 (occurrences ext p (predicates st))
          \<and> (occurrences ext p (predicates st) \<le> 1 \<longrightarrow> occurrences ext p (predicates st) = 1)"
      by (simp add: step evaluate_PREDICATE_def)
    then show ?thesis by blast
  next
    case False
    then have e: "find_if ?P (predicates st) = length (predicates st)"
      by (simp add: find_if_end_iff)
    let ?st1 = "st\<lparr>predicates := predicates st @ [p]\<rparr>"
    from False have z: "filter ?P (predicates st) = []"
      by (simp add: filter_empty_conv)
    have "find_if ?P (predicates ?st1) \<noteq> length (predicates ?st1)"
      using assms(4) find_if_end_iff [of ?P "predicates st @ [p]"] by auto
    with e z assms(4)
    have "evaluate fuel ext tree st True True nid False = Inr ((True, True, 0), ?st1)
          \<and> evaluate fuel ext tree ?st1 True True nid False = Inr ((True, True, 0), ?st1)
          \<and> occurrences ext p (predicates ?st1) = max 1 (occurrences ext p (predicates st))
          \<and> (occurrences ext p (predicates st) \<le> 1 \<longrightarrow> occurrences ext p (predicates ?st1) = 1)"
      by (simp add: step evaluate_PREDICATE_def occurrences_def)
    then show ?thesis by blast
  qed
qed

text \<open>
  The claim as stated fails on a state that holds \<open>P(a)\<close> twice: an application returns the
  state as it is, so after two applications it still holds two occurrences.
\<close>

theorem apply_predicate_twice_counterexample:
  "evaluate 0 list_client tree_P (local_state [fact_P_a, fact_P_a] []) True True 0 False
     = Inr ((True, True, 0), local_state [fact_P_a, fact_P_a] [])
   \<and> occurrences list_client fact_P_a (predicates (local_state [fact_P_a, fact_P_a] [])) = 2"
  by (simp add: evaluate.simps evaluate_body_def tree_P_def fact_P_a_def fixture_simps
      evaluate_PREDICATE_def local_state_def list_client_def structural_equality_def
      occurrences_def Let_def)

theorem apply_predicate_twice_witness:
  "evaluate 0 list_client tree_P (local_state [] []) True True 0 False
     = Inr ((True, True, 0), local_state [fact_P_a] [])
   \<and> evaluate 0 list_client tree_P (local_state [fact_P_a] []) True True 0 False
     = Inr ((True, True, 0), local_state [fact_P_a] [])
   \<and> occurrences list_client fact_P_a (predicates (local_state [fact_P_a] [])) = 1"
proof -
  have h: "unat (0 :: 8 word) < length (nodes tree_P)"
    "node_type (nodes tree_P ! unat (0 :: 8 word)) = PREDICATE"
    "fact_P_a = nodes tree_P ! unat (0 :: 8 word)"
    "checkNodeEquality list_client fact_P_a fact_P_a"
    by (simp_all add: tree_P_def fact_P_a_def fixture_simps list_client_def
        structural_equality_def)
  have first: "evaluate 0 list_client tree_P (local_state [] []) True True 0 False
     = Inr ((True, True, 0), local_state [fact_P_a] [])"
    by (simp add: evaluate.simps evaluate_body_def tree_P_def fact_P_a_def fixture_simps
      evaluate_PREDICATE_def local_state_def list_client_def structural_equality_def)
  have "occurrences list_client fact_P_a (predicates (local_state [] [])) \<le> 1"
    by (simp add: occurrences_def local_state_def)
  with apply_predicate_twice [OF h, of 0 "local_state [] []"] first
  show ?thesis by auto
qed

subsection \<open>Conjunction and disjunction\<close>

lemma evaluate_AND_loop_all:
  assumes "length sts = Suc (length cs)" and "length rs = length cs"
    and "\<forall>i < length cs. ev (cs ! i) (sts ! i) = Inr (rs ! i, sts ! Suc i)"
  shows "evaluate_AND_loop ev cs success truth_value (sts ! 0)
       = Inr ((success \<and> (\<forall>r \<in> set rs. get0 r), truth_value \<and> (\<forall>r \<in> set rs. get1 r), 0),
              last sts)"
  using assms
proof (induction cs arbitrary: success truth_value sts rs)
  case Nil
  then show ?case by (cases sts) simp_all
next
  case (Cons c cs)
  from Cons.prems(1) obtain s0 sts' where sts: "sts = s0 # sts'" "length sts' = Suc (length cs)"
    by (cases sts) auto
  from Cons.prems(2) obtain r0 rs' where rs: "rs = r0 # rs'" "length rs' = length cs"
    by (cases rs) auto
  from Cons.prems(3) have first: "ev c s0 = Inr (r0, sts' ! 0)"
    using sts rs by fastforce
  have rest: "\<forall>i < length cs. ev (cs ! i) (sts' ! i) = Inr (rs' ! i, sts' ! Suc i)"
  proof (intro allI impI)
    fix i assume "i < length cs"
    then have "Suc i < length (c # cs)" by simp
    with Cons.prems(3) have "ev ((c # cs) ! Suc i) (sts ! Suc i) = Inr (rs ! Suc i, sts ! Suc (Suc i))"
      by blast
    then show "ev (cs ! i) (sts' ! i) = Inr (rs' ! i, sts' ! Suc i)"
      using sts rs by simp
  qed
  from sts(2) have ne: "sts' \<noteq> []" by auto
  show ?case
    using Cons.IH [OF sts(2) rs(2) rest] first sts rs ne by auto
qed

lemma evaluate_OR_loop_all:
  assumes "length sts = Suc (length cs)" and "length rs = length cs"
    and "\<forall>i < length cs. ev (cs ! i) (sts ! i) = Inr (rs ! i, sts ! Suc i)"
  shows "evaluate_OR_loop ev cs success truth_value (sts ! 0)
       = Inr ((success \<and> (\<forall>r \<in> set rs. get0 r), truth_value \<or> (\<exists>r \<in> set rs. get1 r), 0),
              last sts)"
  using assms
proof (induction cs arbitrary: success truth_value sts rs)
  case Nil
  then show ?case by (cases sts) simp_all
next
  case (Cons c cs)
  from Cons.prems(1) obtain s0 sts' where sts: "sts = s0 # sts'" "length sts' = Suc (length cs)"
    by (cases sts) auto
  from Cons.prems(2) obtain r0 rs' where rs: "rs = r0 # rs'" "length rs' = length cs"
    by (cases rs) auto
  from Cons.prems(3) have first: "ev c s0 = Inr (r0, sts' ! 0)"
    using sts rs by fastforce
  have rest: "\<forall>i < length cs. ev (cs ! i) (sts' ! i) = Inr (rs' ! i, sts' ! Suc i)"
  proof (intro allI impI)
    fix i assume "i < length cs"
    then have "Suc i < length (c # cs)" by simp
    with Cons.prems(3) have "ev ((c # cs) ! Suc i) (sts ! Suc i) = Inr (rs ! Suc i, sts ! Suc (Suc i))"
      by blast
    then show "ev (cs ! i) (sts' ! i) = Inr (rs' ! i, sts' ! Suc i)"
      using sts rs by simp
  qed
  from sts(2) have ne: "sts' \<noteq> []" by auto
  show ?case
    using Cons.IH [OF sts(2) rs(2) rest] first sts rs ne by auto
qed

text \<open>
  What the \<^verbatim>\<open>AND\<close> and \<^verbatim>\<open>OR\<close> cases do, on the nodes the code reaches (the child ids in 8
  bits). Let each of these nodes return a result, the one for child \<open>i\<close> being evaluated in
  the state \<open>sts ! i\<close> that the one before left and returning \<open>rs ! i\<close>, whatever these
  results are. Then the node returns, in the state the last one left: success if and only
  if every one succeeded; for \<^verbatim>\<open>AND\<close>, truth if and only if every one is true, for \<^verbatim>\<open>OR\<close>,
  truth if and only if some one is true; and the value 0.
\<close>

lemma and_or_every_child:
  assumes "unat nid < length (nodes tree)"
    and "n = nodes tree ! unat nid"
    and "length sts = Suc (length (children n))"
    and "length rs = length (children n)"
    and "sts ! 0 = st"
    and "\<forall>i < length (children n).
           evaluate fuel ext tree (sts ! i) apply use_state (ucast (children n ! i)) negate
             = Inr (rs ! i, sts ! Suc i)"
  shows "(node_type n = AND \<longrightarrow>
            evaluate (Suc fuel) ext tree st apply use_state nid negate
              = Inr (((\<forall>r \<in> set rs. get0 r), (\<forall>r \<in> set rs. get1 r), 0), last sts))
       \<and> (node_type n = OR \<longrightarrow>
            evaluate (Suc fuel) ext tree st apply use_state nid negate
              = Inr (((\<forall>r \<in> set rs. get0 r), (\<exists>r \<in> set rs. get1 r), 0), last sts))"
proof -
  let ?ev = "\<lambda>child_id st'. evaluate fuel ext tree st' apply use_state (ucast child_id) negate"
  from assms(1) have ne: "nodes tree \<noteq> []" by auto
  have a: "evaluate_AND_loop ?ev (children n) True True (sts ! 0)
      = Inr ((True \<and> (\<forall>r \<in> set rs. get0 r), True \<and> (\<forall>r \<in> set rs. get1 r), 0), last sts)"
    using assms(3,4,6) by (rule evaluate_AND_loop_all)
  have b: "evaluate_OR_loop ?ev (children n) True False (sts ! 0)
      = Inr ((True \<and> (\<forall>r \<in> set rs. get0 r), False \<or> (\<exists>r \<in> set rs. get1 r), 0), last sts)"
    using assms(3,4,6) by (rule evaluate_OR_loop_all)
  show ?thesis
    using assms(1,2,5) ne a b by (simp add: evaluate.simps evaluate_body_def)
qed

lemma and_or_every_child_example:
  "evaluate 1 list_client tree_and (local_state [] []) True True 0 False
     = Inr ((False, False, 0), local_state [fact_P_a] [])
   \<and> evaluate 1 list_client tree_or (local_state [] []) True True 0 False
     = Inr ((False, True, 0), local_state [fact_P_a] [])"
proof -
  let ?sts = "[local_state [] [], local_state [] [], local_state [fact_P_a] []]"
  let ?rs = "[(False, False, 0), (True, True, 0)] :: result list"
  let ?and = "mk_node AND [1, 2] [] []"
  let ?or = "mk_node OR [1, 2] [] []"
  have a1: "evaluate 0 list_client tree_and (local_state [] []) True True (ucast (1 :: 32 word)) False
      = Inr ((False, False, 0), local_state [] [])"
    by (simp add: evaluate.simps evaluate_body_def tree_and_def fun_f_def
        fixture_simps evaluate_FUNCTION_def local_state_def)
  have a2: "evaluate 0 list_client tree_and (local_state [] []) True True (ucast (2 :: 32 word)) False
      = Inr ((True, True, 0), local_state [fact_P_a] [])"
    by (simp add: evaluate.simps evaluate_body_def tree_and_def
        fact_P_a_def fixture_simps evaluate_PREDICATE_def local_state_def Let_def)
  have o1: "evaluate 0 list_client tree_or (local_state [] []) True True (ucast (1 :: 32 word)) False
      = Inr ((False, False, 0), local_state [] [])"
    by (simp add: evaluate.simps evaluate_body_def tree_or_def fun_f_def
        fixture_simps evaluate_FUNCTION_def local_state_def)
  have o2: "evaluate 0 list_client tree_or (local_state [] []) True True (ucast (2 :: 32 word)) False
      = Inr ((True, True, 0), local_state [fact_P_a] [])"
    by (simp add: evaluate.simps evaluate_body_def tree_or_def
        fact_P_a_def fixture_simps evaluate_PREDICATE_def local_state_def Let_def)
  have ha: "unat (0 :: 8 word) < length (nodes tree_and)" "?and = nodes tree_and ! unat (0 :: 8 word)"
    and ho: "unat (0 :: 8 word) < length (nodes tree_or)" "?or = nodes tree_or ! unat (0 :: 8 word)"
    by (simp_all add: tree_and_def tree_or_def)
  have l: "length ?sts = Suc (length (children ?and))" "length ?rs = length (children ?and)"
    "length ?sts = Suc (length (children ?or))" "length ?rs = length (children ?or)"
    "?sts ! 0 = local_state [] []"
    by (simp_all add: fixture_simps)
  have ca: "\<forall>i < length (children ?and).
      evaluate 0 list_client tree_and (?sts ! i) True True (ucast (children ?and ! i)) False
        = Inr (?rs ! i, ?sts ! Suc i)"
    using a1 a2 by (simp add: fixture_simps all_less_2)
  have co: "\<forall>i < length (children ?or).
      evaluate 0 list_client tree_or (?sts ! i) True True (ucast (children ?or ! i)) False
        = Inr (?rs ! i, ?sts ! Suc i)"
    using o1 o2 by (simp add: fixture_simps all_less_2)
  from and_or_every_child [OF ha l(1,2,5) ca]
  have "evaluate (Suc 0) list_client tree_and (local_state [] []) True True 0 False
     = Inr ((False, False, 0), local_state [fact_P_a] [])"
    by (simp add: fixture_simps)
  moreover from and_or_every_child [OF ho l(3,4,5) co]
  have "evaluate (Suc 0) list_client tree_or (local_state [] []) True True 0 False
     = Inr ((False, True, 0), local_state [fact_P_a] [])"
    by (simp add: fixture_simps)
  ultimately show ?thesis by simp
qed

lemma evaluate_NUMBER:
  assumes "unat nid < length (nodes tree)" and "node_type (nodes tree ! unat nid) = NUMBER"
  shows "evaluate fuel ext tree st apply use_state nid negate
       = Inr ((True, True, node_value (nodes tree ! unat nid)), st)"
  using assms by (cases fuel) (auto simp: evaluate.simps evaluate_body_def)

text \<open>
  C4. The claim gives an \<^verbatim>\<open>AND\<close> node the conjunction of the results of all its children.
  The parameter \<^verbatim>\<open>node_id\<close> of \<open>evaluate\<close> has 8 bits and the child ids have 32: in a tree
  of 258 nodes whose node 0 is an \<^verbatim>\<open>AND\<close> with the single child 257, the number 1.0, the
  code evaluates node 1 (257 modulo 256), a node of unknown kind, and the \<^verbatim>\<open>AND\<close> fails
  without truth, although a number always succeeds with truth.
\<close>

theorem and_child_narrowed:
  "length (nodes tree_and_far) = 258
   \<and> nodes tree_and_far ! 0 = mk_node AND [257] [] []
   \<and> nodes tree_and_far ! 257 = mk_number double_one
   \<and> evaluate 1 list_client tree_and_far (local_state [] []) False True 0 False
       = Inr ((False, False, 0), local_state [] [])"
  by code_simp

subsection \<open>Division\<close>

lemma evaluate_in_range:
  "evaluate fuel ext tree st apply use_state nid negate = Inr r \<Longrightarrow> nodes tree \<noteq> [] \<Longrightarrow>
   unat nid < length (nodes tree)"
  by (cases fuel) (auto simp: evaluate.simps evaluate_body_def split: if_splits)

text \<open>
  C5, amended. Let the first two children of a node, with ids below 256, evaluate with
  success, to the values \<open>lv\<close> and then \<open>rv\<close>. An \<^verbatim>\<open>ARITH_DIV\<close> expression fails if and only if
  \<open>rv\<close> is a NaN or \<open>|rv| <= 1e-5\<close>, and succeeds with the quotient of \<open>lv\<close> by \<open>rv\<close> otherwise.
  A scale-down modifier returns that quotient unless \<open>rv\<close> is a NaN or \<open>|rv| <= 1e-5\<close>, and
  fails if and only if \<open>rv\<close> is a NaN, or \<open>|rv| <= 1e-5\<close>, or it is applied to the local state
  and no function of that state matches the left operand's node.
\<close>

theorem division_guard:
  assumes "unat nid < length (nodes tree)"
    and "n = nodes tree ! unat nid"
    and "children n = c0 # c1 # cs"
    and "unat c0 < 256" and "unat c1 < 256"
    and "evaluate fuel ext tree st apply use_state (ucast c0) negate = Inr ((True, lt, lv), st1)"
    and "evaluate fuel ext tree st1 apply use_state (ucast c1) negate = Inr ((True, rt, rv), st2)"
  shows "(node_type n = EXPRESSION \<and> expression_type n = ARITH_DIV \<longrightarrow>
            evaluate (Suc fuel) ext tree st apply use_state nid negate
              = (if isnan rv \<or> double_le (double_abs rv) literal_1e_5
                 then Inr ((False, False, 0), st2)
                 else Inr ((True, False, double_div ext lv rv), st2)))
       \<and> (node_type n = FUNCTION_MODIFIER \<and> modifier_type n = SCALE_DOWN \<longrightarrow>
            (\<exists>success st3.
               evaluate (Suc fuel) ext tree st apply use_state nid negate
                 = Inr ((success, False,
                         if isnan rv \<or> double_le (double_abs rv) literal_1e_5 then 0
                         else double_div ext lv rv), st3)
               \<and> (\<not> success \<longleftrightarrow>
                    isnan rv \<or> double_le (double_abs rv) literal_1e_5
                    \<or> (apply \<and> use_state
                        \<and> (\<forall>f \<in> set (functions' st2).
                              \<not> checkNodeEquality ext f (nodes tree ! unat c0))))
               \<and> (\<not> apply \<or> isnan rv \<or> double_le (double_abs rv) literal_1e_5 \<longrightarrow> st3 = st2)))"
proof (intro conjI impI)
  from assms(1) have ne: "nodes tree \<noteq> []" by auto
  define small where "small \<longleftrightarrow> isnan rv \<or> double_le (double_abs rv) literal_1e_5"
  have guard: "double_gt (double_abs rv) literal_1e_5 \<longleftrightarrow> \<not> small"
    by (simp add: small_def guard_1e_5)
  {
    assume "node_type n = EXPRESSION \<and> expression_type n = ARITH_DIV"
    then have "evaluate (Suc fuel) ext tree st apply use_state nid negate
              = (if small then Inr ((False, False, 0), st2)
                 else Inr ((True, False, double_div ext lv rv), st2))"
      using assms(1,2,3,6,7) ne guard
      by (simp add: evaluate.simps(2) evaluate_body_def evaluate_EXPRESSION_def
          expression_result_def)
    then show "evaluate (Suc fuel) ext tree st apply use_state nid negate
              = (if isnan rv \<or> double_le (double_abs rv) literal_1e_5
                 then Inr ((False, False, 0), st2)
                 else Inr ((True, False, double_div ext lv rv), st2))"
      unfolding small_def .
  }
  {
    assume m: "node_type n = FUNCTION_MODIFIER \<and> modifier_type n = SCALE_DOWN"
    have left: "unat (ucast c0 :: 8 word) = unat c0"
      using assms(4) by (rule unat_ucast_8)
    let ?P = "\<lambda>x. checkNodeEquality ext x (nodes tree ! unat c0)"
    define v where "v = (if small then 0 else double_div ext lv rv)"
    from evaluate_in_range [OF assms(6) ne] left
    have rng: "\<not> length (nodes tree) \<le> unat (ucast c0 :: 8 word)" by simp
    have "evaluate (Suc fuel) ext tree st apply use_state nid negate
        = (if \<not> small \<and> apply then
             (case commit_function ext tree st2 use_state (ucast c0) (double_div ext lv rv) of
                Inl e \<Rightarrow> Inl e
              | Inr (success', st3) \<Rightarrow> Inr ((success', False, double_div ext lv rv), st3))
           else Inr ((\<not> small, False, if small then 0 else double_div ext lv rv), st2))"
      using assms(1,2,3,6,7) ne m guard
      by (simp add: evaluate.simps(2) evaluate_body_def evaluate_FUNCTION_MODIFIER_def
          modifier_result_def)
    then have step: "evaluate (Suc fuel) ext tree st apply use_state nid negate
        = (if \<not> small \<and> apply then
             (case commit_function ext tree st2 use_state (ucast c0) (double_div ext lv rv) of
                Inl e \<Rightarrow> Inl e
              | Inr (success', st3) \<Rightarrow> Inr ((success', False, v), st3))
           else Inr ((\<not> small, False, v), st2))"
      unfolding v_def by (simp split: sum.splits)
    have commit: "\<exists>st3. commit_function ext tree st2 use_state (ucast c0) (double_div ext lv rv)
        = Inr (\<not> (use_state \<and> (\<forall>f \<in> set (functions' st2). \<not> ?P f)), st3)"
    proof (cases use_state)
      case False
      then show ?thesis
        by (simp add: commit_function_def split: prod.splits)
    next
      case True
      show ?thesis
      proof (cases "\<forall>f \<in> set (functions' st2). \<not> ?P f")
        case all: True
        then have "find_if ?P (functions' st2) = length (functions' st2)"
          by (simp add: find_if_end_iff)
        with True rng all show ?thesis
          by (simp add: commit_function_def left)
      next
        case some: False
        then have "find_if ?P (functions' st2) \<noteq> length (functions' st2)"
          by (simp add: find_if_end_iff)
        with True rng some show ?thesis
          by (simp add: commit_function_def Let_def left)
      qed
    qed
    have "\<exists>success st3.
               evaluate (Suc fuel) ext tree st apply use_state nid negate
                 = Inr ((success, False, v), st3)
               \<and> (\<not> success \<longleftrightarrow>
                    small \<or> (apply \<and> use_state \<and> (\<forall>f \<in> set (functions' st2). \<not> ?P f)))
               \<and> (\<not> apply \<or> small \<longrightarrow> st3 = st2)"
    proof (cases "\<not> small \<and> apply")
      case False
      then show ?thesis by (auto simp: step)
    next
      case True
      from commit obtain st3 where
        "commit_function ext tree st2 use_state (ucast c0) (double_div ext lv rv)
          = Inr (\<not> (use_state \<and> (\<forall>f \<in> set (functions' st2). \<not> ?P f)), st3)" ..
      with True have "evaluate (Suc fuel) ext tree st apply use_state nid negate
          = Inr ((\<not> (use_state \<and> (\<forall>f \<in> set (functions' st2). \<not> ?P f)), False, v), st3)"
        by (subst step) simp
      with True show ?thesis by blast
    qed
    then show "\<exists>success st3.
               evaluate (Suc fuel) ext tree st apply use_state nid negate
                 = Inr ((success, False,
                         if isnan rv \<or> double_le (double_abs rv) literal_1e_5 then 0
                         else double_div ext lv rv), st3)
               \<and> (\<not> success \<longleftrightarrow>
                    isnan rv \<or> double_le (double_abs rv) literal_1e_5
                    \<or> (apply \<and> use_state
                        \<and> (\<forall>f \<in> set (functions' st2).
                              \<not> checkNodeEquality ext f (nodes tree ! unat c0))))
               \<and> (\<not> apply \<or> isnan rv \<or> double_le (double_abs rv) literal_1e_5 \<longrightarrow> st3 = st2)"
      unfolding small_def v_def by (simp only: disj_assoc)
  }
qed

text \<open>
  The claim as stated fails for a divisor that is a NaN: both children succeed, the
  divisor is not at most \<^verbatim>\<open>1e-5\<close>, and the division fails. It also fails for a scale-down
  whose left operand is not a function of the local state: both children succeed, the
  divisor is 1.0, and the applied node fails.
\<close>

theorem division_guard_counterexample:
  "evaluate 0 list_client (tree_div double_nan) (local_state [] []) False True 1 False
     = Inr ((True, True, double_three), local_state [] [])
   \<and> evaluate 0 list_client (tree_div double_nan) (local_state [] []) False True 2 False
     = Inr ((True, True, double_nan), local_state [] [])
   \<and> evaluate 1 list_client (tree_div double_nan) (local_state [] []) False True 0 False
     = Inr ((False, False, 0), local_state [] [])
   \<and> \<not> double_le (double_abs double_nan) literal_1e_5
   \<and> evaluate 0 list_client (tree_scale_down double_one) (local_state [] []) True True 1 False
     = Inr ((True, True, double_three), local_state [] [])
   \<and> evaluate 0 list_client (tree_scale_down double_one) (local_state [] []) True True 2 False
     = Inr ((True, True, double_one), local_state [] [])
   \<and> evaluate 1 list_client (tree_scale_down double_one) (local_state [] []) True True 0 False
     = Inr ((False, False, double_three), local_state [] [])
   \<and> \<not> double_le (double_abs double_one) literal_1e_5"
  by code_simp

theorem division_guard_witness:
  "evaluate 1 list_client (tree_div double_1e_6) (local_state [] []) False True 0 False
     = Inr ((False, False, 0), local_state [] [])
   \<and> evaluate 1 list_client (tree_div double_one) (local_state [] []) False True 0 False
     = Inr ((True, False, double_div list_client double_three double_one), local_state [] [])
   \<and> evaluate 1 list_client (tree_scale_down double_1e_6) (local_state [] []) False True 0 False
     = Inr ((False, False, 0), local_state [] [])
   \<and> evaluate 1 list_client (tree_scale_down double_one) (local_state [] []) False True 0 False
     = Inr ((True, False, double_div list_client double_three double_one), local_state [] [])
   \<and> double_div list_client double_three double_one = double_three"
proof -
  let ?st = "local_state [] [] :: (node list \<times> param list) state"
  let ?d = "(mk_node EXPRESSION [1, 2] [] [])\<lparr>expression_type := ARITH_DIV\<rparr>"
  let ?m = "(mk_node FUNCTION_MODIFIER [1, 2] [] [])\<lparr>modifier_type := SCALE_DOWN\<rparr>"
  have kids: "children ?d = 1 # 2 # []" "children ?m = 1 # 2 # []"
    "node_type ?d = EXPRESSION \<and> expression_type ?d = ARITH_DIV"
    "node_type ?m = FUNCTION_MODIFIER \<and> modifier_type ?m = SCALE_DOWN"
    by (simp_all add: mk_node_def Node_default_def)
  have small_ids: "unat (1 :: 32 word) < 256" "unat (2 :: 32 word) < 256"
    by simp_all
  have rng: "unat (0 :: 8 word) < length (nodes (tree_div v))" "?d = nodes (tree_div v) ! unat (0 :: 8 word)"
    "unat (0 :: 8 word) < length (nodes (tree_scale_down v))"
    "?m = nodes (tree_scale_down v) ! unat (0 :: 8 word)" for v
    by (simp_all add: tree_div_def tree_scale_down_def)
  have l: "evaluate 0 list_client (tree_div v) ?st False True (ucast (1 :: 32 word)) False
       = Inr ((True, True, double_three), ?st)"
      "evaluate 0 list_client (tree_scale_down v) ?st False True (ucast (1 :: 32 word)) False
       = Inr ((True, True, double_three), ?st)" for v
    by (simp_all add: evaluate.simps evaluate_body_def tree_div_def tree_scale_down_def number_simps)
  have r: "evaluate 0 list_client (tree_div v) ?st False True (ucast (2 :: 32 word)) False
       = Inr ((True, True, v), ?st)"
      "evaluate 0 list_client (tree_scale_down v) ?st False True (ucast (2 :: 32 word)) False
       = Inr ((True, True, v), ?st)" for v
    by (simp_all add: evaluate.simps evaluate_body_def tree_div_def tree_scale_down_def number_simps)
  have small: "isnan double_1e_6 \<or> double_le (double_abs double_1e_6) literal_1e_5"
    by code_simp
  have big: "\<not> (isnan double_one \<or> double_le (double_abs double_one) literal_1e_5)"
    by code_simp
  have q: "double_div list_client double_three double_one = double_three"
    by (simp add: list_client_def)
  note d1 = division_guard [OF rng(1,2)[of double_1e_6] kids(1) small_ids
      l(1)[of double_1e_6] r(1)[of double_1e_6], THEN conjunct1]
  note d2 = division_guard [OF rng(1,2)[of double_one] kids(1) small_ids
      l(1)[of double_one] r(1)[of double_one], THEN conjunct1]
  note m1 = division_guard [OF rng(3,4)[of double_1e_6] kids(2) small_ids
      l(2)[of double_1e_6] r(2)[of double_1e_6], THEN conjunct2]
  note m2 = division_guard [OF rng(3,4)[of double_one] kids(2) small_ids
      l(2)[of double_one] r(2)[of double_one], THEN conjunct2]
  have "evaluate (Suc 0) list_client (tree_div double_1e_6) ?st False True 0 False
     = Inr ((False, False, 0), ?st)"
    using d1 kids(3) small by simp
  moreover have "evaluate (Suc 0) list_client (tree_div double_one) ?st False True 0 False
     = Inr ((True, False, double_div list_client double_three double_one), ?st)"
    using d2 kids(3) big by simp
  moreover have "evaluate (Suc 0) list_client (tree_scale_down double_1e_6) ?st False True 0 False
     = Inr ((False, False, 0), ?st)"
    using m1 kids(4) small by auto
  moreover have "evaluate (Suc 0) list_client (tree_scale_down double_one) ?st False True 0 False
     = Inr ((True, False, double_div list_client double_three double_one), ?st)"
    using m2 kids(4) big by auto
  ultimately show ?thesis using q by simp
qed

subsection \<open>The existential quantifier\<close>

lemma exists_loop_first:
  assumes "length sts = Suc (length pre)"
    and "\<forall>i < length pre. \<exists>r. candidate (pre ! i) (sts ! i) = Inr (r, sts ! Suc i) \<and> \<not> get1 r"
    and "candidate c (last sts) = Inr (r, st')" and "get1 r"
  shows "exists_loop candidate (pre @ c # post) (sts ! 0) = Inr (r, st')"
  using assms
proof (induction pre arbitrary: sts)
  case Nil
  then obtain s0 where "sts = [s0]" by (cases sts) auto
  with Nil show ?case by simp
next
  case (Cons p pre)
  from Cons.prems(1) obtain s0 sts' where sts: "sts = s0 # sts'" "length sts' = Suc (length pre)"
    by (cases sts) auto
  from sts(2) have ne: "sts' \<noteq> []" by auto
  from Cons.prems(2) have "\<exists>r. candidate ((p # pre) ! 0) (sts ! 0) = Inr (r, sts ! Suc 0) \<and> \<not> get1 r"
    by blast
  then obtain r0 where first: "candidate p s0 = Inr (r0, sts' ! 0)" "\<not> get1 r0"
    using sts by auto
  have rest: "\<forall>i < length pre. \<exists>r. candidate (pre ! i) (sts' ! i) = Inr (r, sts' ! Suc i) \<and> \<not> get1 r"
  proof (intro allI impI)
    fix i assume "i < length pre"
    then have "Suc i < length (p # pre)" by simp
    with Cons.prems(2)
    have "\<exists>r. candidate ((p # pre) ! Suc i) (sts ! Suc i) = Inr (r, sts ! Suc (Suc i)) \<and> \<not> get1 r"
      by blast
    then show "\<exists>r. candidate (pre ! i) (sts' ! i) = Inr (r, sts' ! Suc i) \<and> \<not> get1 r"
      using sts by simp
  qed
  from Cons.prems(3) sts ne have "candidate c (last sts') = Inr (r, st')" by simp
  from Cons.IH [OF sts(2) rest this Cons.prems(4)] first sts show ?case by simp
qed

lemma exists_loop_none:
  assumes "length sts = Suc (length cands)"
    and "\<forall>i < length cands. \<exists>r. candidate (cands ! i) (sts ! i) = Inr (r, sts ! Suc i) \<and> \<not> get1 r"
  shows "exists_loop candidate cands (sts ! 0) = Inr ((True, False, 0), last sts)"
  using assms
proof (induction cands arbitrary: sts)
  case Nil
  then obtain s0 where "sts = [s0]" by (cases sts) auto
  then show ?case by simp
next
  case (Cons p pre)
  from Cons.prems(1) obtain s0 sts' where sts: "sts = s0 # sts'" "length sts' = Suc (length pre)"
    by (cases sts) auto
  from sts(2) have ne: "sts' \<noteq> []" by auto
  from Cons.prems(2) have "\<exists>r. candidate ((p # pre) ! 0) (sts ! 0) = Inr (r, sts ! Suc 0) \<and> \<not> get1 r"
    by blast
  then obtain r0 where first: "candidate p s0 = Inr (r0, sts' ! 0)" "\<not> get1 r0"
    using sts by auto
  have rest: "\<forall>i < length pre. \<exists>r. candidate (pre ! i) (sts' ! i) = Inr (r, sts' ! Suc i) \<and> \<not> get1 r"
  proof (intro allI impI)
    fix i assume "i < length pre"
    then have "Suc i < length (p # pre)" by simp
    with Cons.prems(2)
    have "\<exists>r. candidate ((p # pre) ! Suc i) (sts ! Suc i) = Inr (r, sts ! Suc (Suc i)) \<and> \<not> get1 r"
      by blast
    then show "\<exists>r. candidate (pre ! i) (sts' ! i) = Inr (r, sts' ! Suc i) \<and> \<not> get1 r"
      using sts by simp
  qed
  from Cons.IH [OF sts(2) rest] first sts ne show ?case by simp
qed

text \<open>
  What the \<^verbatim>\<open>EXISTS\<close> case does. Let \<open>n\<close> be an \<^verbatim>\<open>EXISTS\<close> node. Its candidate tuples \<open>cands\<close>
  are the product of one list of instance names per parameter, and \<open>candidate\<close> grounds
  the tree with a tuple and evaluates the node the code reaches as the body (the first
  child id in 8 bits). Let the tuples of \<open>pre\<close> be evaluated one after the other, from the
  state \<open>st0\<close> on, each returning a result without truth. If \<open>pre\<close> is followed in \<open>cands\<close> by
  a tuple \<open>c\<close> that returns \<open>r\<close> with truth, the node returns \<open>r\<close> and the state \<open>c\<close> left,
  whatever tuples \<open>post\<close> come after \<open>c\<close>. If \<open>pre\<close> is all of \<open>cands\<close>, the node returns
  (true, false, 0).
\<close>

lemma exists_first_candidate:
  assumes "unat nid < length (nodes tree)"
    and "n = nodes tree ! unat nid"
    and "node_type n = EXISTS"
    and "(instances, st0) =
           (if use_state then (collect_instances (predicates st), st)
            else (fst (getInstances ext (remote st)),
                  st\<lparr>remote := snd (getInstances ext (remote st))\<rparr>))"
    and "cands = product_lists (replicate (length (parameters n)) (map pname instances))"
    and "candidate = exists_candidate (replace_children_param (Suc fuel)) (evaluate fuel ext)
                       tree apply use_state nid negate"
    and "length sts = Suc (length pre)"
    and "sts ! 0 = st0"
    and "\<forall>i < length pre. \<exists>r. candidate (pre ! i) (sts ! i) = Inr (r, sts ! Suc i) \<and> \<not> get1 r"
  shows "(cands = pre @ c # post \<and> candidate c (last sts) = Inr (r, st') \<and> get1 r \<longrightarrow>
            evaluate (Suc fuel) ext tree st apply use_state nid negate = Inr (r, st'))
       \<and> (cands = pre \<longrightarrow>
            evaluate (Suc fuel) ext tree st apply use_state nid negate
              = Inr ((True, False, 0), last sts))"
proof -
  from assms(1) have ne: "nodes tree \<noteq> []" by auto
  have "evaluate (Suc fuel) ext tree st apply use_state nid negate
      = evaluate_EXISTS (replace_children_param (Suc fuel)) ext (evaluate fuel ext)
          tree st apply use_state nid negate"
    using assms(1-3) ne by (simp add: evaluate.simps(2) evaluate_body_def)
  also have "\<dots> = exists_loop candidate cands st0"
    using assms(2,4,5,6)
    by (auto simp: evaluate_EXISTS_def possible_parameters_values_def cart_product_start
        split: prod.splits)
  finally have step: "evaluate (Suc fuel) ext tree st apply use_state nid negate
      = exists_loop candidate cands (sts ! 0)"
    using assms(8) by simp
  show ?thesis
    using exists_loop_first [OF assms(7,9), of c r st' post] exists_loop_none [OF _ assms(9)]
      assms(7)
    by (auto simp: step)
qed

lemma exists_first_candidate_example:
  "evaluate 1 list_client tree_exists (universe_abc [fact_P ''b'']) False False 0 False
     = Inr ((True, True, 0), universe_abc [fact_P ''b''])
   \<and> evaluate 1 list_client tree_exists (universe_abc [fact_P ''z'']) False False 0 False
     = Inr ((True, False, 0), universe_abc [fact_P ''z''])"
proof -
  let ?n = "mk_node EXISTS [1] [] [''?0'']"
  let ?abc = "[mk_param ''a'', mk_param ''b'', mk_param ''c'']"
  let ?cand = "exists_candidate (replace_children_param (Suc 0)) (evaluate 0 list_client)
                 tree_exists False False 0 False"
  have h: "unat (0 :: 8 word) < length (nodes tree_exists)"
    "?n = nodes tree_exists ! unat (0 :: 8 word)" "node_type ?n = EXISTS"
    by (simp_all add: tree_exists_def fixture_simps)
  have inst: "(?abc, universe_abc ps) =
           (if False then (collect_instances (predicates (universe_abc ps)), universe_abc ps)
            else (fst (getInstances list_client (remote (universe_abc ps))),
                  (universe_abc ps)\<lparr>remote := snd (getInstances list_client (remote (universe_abc ps)))\<rparr>))"
    for ps
    by (simp add: universe_abc_def list_client_def)
  have cands: "[[''a''], [''b''], [''c'']]
      = product_lists (replicate (length (parameters ?n)) (map pname ?abc))"
    by (simp add: fixture_simps)
  have b_a: "?cand [''a''] (universe_abc [fact_P ''b''])
       = Inr ((True, False, 0), universe_abc [fact_P ''b''])"
    by code_simp
  have b_b: "?cand [''b''] (universe_abc [fact_P ''b''])
       = Inr ((True, True, 0), universe_abc [fact_P ''b''])"
    by code_simp
  have z_a: "?cand [''a''] (universe_abc [fact_P ''z''])
       = Inr ((True, False, 0), universe_abc [fact_P ''z''])"
    by code_simp
  have z_b: "?cand [''b''] (universe_abc [fact_P ''z''])
       = Inr ((True, False, 0), universe_abc [fact_P ''z''])"
    by code_simp
  have z_c: "?cand [''c''] (universe_abc [fact_P ''z''])
       = Inr ((True, False, 0), universe_abc [fact_P ''z''])"
    by code_simp
  let ?sb = "universe_abc [fact_P ''b'']"
  let ?sz = "universe_abc [fact_P ''z'']"
  have pre_b: "\<forall>i < length [[''a'']].
      \<exists>r. ?cand ([[''a'']] ! i) ([?sb, ?sb] ! i) = Inr (r, [?sb, ?sb] ! Suc i) \<and> \<not> get1 r"
    using b_a by simp
  have pre_z: "\<forall>i < length [[''a''], [''b''], [''c'']].
      \<exists>r. ?cand ([[''a''], [''b''], [''c'']] ! i) ([?sz, ?sz, ?sz, ?sz] ! i)
            = Inr (r, [?sz, ?sz, ?sz, ?sz] ! Suc i) \<and> \<not> get1 r"
    using z_a z_b z_c by (auto simp: all_less_3)
  from exists_first_candidate [OF h inst [of "[fact_P ''b'']"] cands refl _ _ pre_b,
      where c = "[''b'']" and post = "[[''c'']]" and r = "(True, True, 0)" and st' = ?sb] b_b
  have "evaluate (Suc 0) list_client tree_exists ?sb False False 0 False
     = Inr ((True, True, 0), ?sb)"
    by simp
  moreover from exists_first_candidate [OF h inst [of "[fact_P ''z'']"] cands refl _ _ pre_z]
  have "evaluate (Suc 0) list_client tree_exists ?sz False False 0 False
     = Inr ((True, False, 0), ?sz)"
    by simp
  ultimately show ?thesis by simp
qed

text \<open>
  C2. The claim makes an \<^verbatim>\<open>EXISTS\<close> node true only through a candidate whose grounded body
  is true. The parameter \<^verbatim>\<open>node_id\<close> of \<open>evaluate\<close> has 8 bits and the child ids have 32: in
  a tree of 258 nodes whose node 0 quantifies \<open>?0\<close> over the body \<open>P(?0)\<close> at node 257, the
  code evaluates node 1 (257 modulo 256), the number 5.0, as the body. On the state that
  holds \<open>Q(a)\<close> only, the one candidate is \<open>a\<close>, \<open>P(a)\<close> does not hold, and the node returns
  (true, true, 5.0).
\<close>

theorem exists_body_narrowed:
  "length (nodes tree_exists_far) = 258
   \<and> nodes tree_exists_far ! 0 = mk_node EXISTS [257] [] [''?0'']
   \<and> nodes tree_exists_far ! 257 = mk_node PREDICATE [] ''P'' [''?0'']
   \<and> possible_parameters_values (nodes tree_exists_far ! 0) (collect_instances [fact_Q_a])
       = [[''a'']]
   \<and> occurrences list_client (fact_P ''a'') [fact_Q_a] = 0
   \<and> evaluate 1 list_client tree_exists_far (local_state [fact_Q_a] []) False True 0 False
       = Inr ((True, True, double_five), local_state [fact_Q_a] [])"
  by code_simp

subsection \<open>Lowering of the existential condition\<close>

lemma size_t_of_int_less:
  assumes "- (2 ^ 31) \<le> p" and "p < 2 ^ 31" and "n < 2 ^ 63"
  shows "size_t_of_int p < n \<longleftrightarrow> 0 \<le> p \<and> nat p < n"
proof (cases "0 \<le> p")
  case True
  with assms(2) have "p mod 2 ^ 64 = p" by simp
  with True show ?thesis by (simp add: size_t_of_int_def)
next
  case False
  with assms(1) have "0 \<le> p + 2 ^ 64" and "p + 2 ^ 64 < 2 ^ 64" by simp_all
  then have "(p + 2 ^ 64) mod 2 ^ 64 = p + 2 ^ 64" by (rule mod_pos_pos_trivial)
  then have "p mod 2 ^ 64 = p + 2 ^ 64" by simp
  with assms False show ?thesis by (simp add: size_t_of_int_def)
qed

lemma size_t_of_int_nonneg: "0 \<le> p \<Longrightarrow> p < 2 ^ 31 \<Longrightarrow> size_t_of_int p = nat p"
  by (simp add: size_t_of_int_def)

lemma exists_param_name:
  assumes "- (2 ^ 31) \<le> p" and "p < 2 ^ 31" and "length replace < 2 ^ 63"
  shows "exists_param replace i p =
     Param_default\<lparr>pname :=
       (if i < length replace \<and> 0 \<le> p \<and> nat p < length replace then replace ! nat p
        else ''?'' @ to_string p)\<rparr>"
  using assms size_t_of_int_less [OF assms(1,2,3)]
  by (auto simp: exists_param_def size_t_of_int_nonneg)

text \<open>
  C9, amended. Let the existential condition have a body whose lowering only appends
  nodes, the node array be shorter than \<open>2^32\<close>, the slots be in the range of \<^verbatim>\<open>int\<close> and the
  replacement list shorter than \<open>2^63\<close>. Then \<open>Exists_getTree\<close> returns a node \<open>n\<close> of kind
  \<^verbatim>\<open>EXISTS\<close> whose id is the length of the node array at the call; the array it leaves is
  the old one, then \<open>n\<close> with the id of the body's root as its single child, then the nodes
  the body appended. Parameter \<open>i\<close> of \<open>n\<close> is named by the replacement at its slot when
  both the position \<open>i\<close> and the slot are inside the replacement list, and \<open>?\<close> followed by
  the slot otherwise.
\<close>

theorem Exists_getTree_lowering:
  assumes "cond e = Some lower"
    and "\<forall>t. \<exists>t' child extra. lower t d replace = Inr (t', child) \<and> nodes t' = nodes t @ extra"
    and "length (nodes tree) < 2 ^ 32"
    and "length replace < 2 ^ 63"
    and "\<forall>p \<in> set (params e). - (2 ^ 31) \<le> p \<and> p < 2 ^ 31"
  shows "\<exists>n tree2 child extra tree3.
           Exists_getTree e tree d replace = Inr (tree3, n)
           \<and> lower (tree\<lparr>nodes := nodes tree @ [n]\<rparr>) d replace = Inr (tree2, child)
           \<and> nodes tree2 = nodes tree @ n # extra
           \<and> nodes tree3 = nodes tree @ n\<lparr>children := [node_id child]\<rparr> # extra
           \<and> node_type n = EXISTS
           \<and> unat (node_id n) = length (nodes tree)
           \<and> children n = []
           \<and> length (parameters n) = length (params e)
           \<and> (\<forall>i < length (params e).
                 parameters n ! i =
                   Param_default\<lparr>pname :=
                     (if i < length replace \<and> 0 \<le> params e ! i
                         \<and> nat (params e ! i) < length replace
                      then replace ! nat (params e ! i)
                      else ''?'' @ to_string (params e ! i))\<rparr>)"
proof -
  define n where "n = Node_default
                \<lparr>node_type := EXISTS,
                 node_id := of_nat (length (nodes tree)),
                 parameters := map (\<lambda>i. exists_param replace i (params e ! i))
                                   [0..<length (params e)]\<rparr>"
  from assms(2) obtain tree2 child extra0 where
    low: "lower (tree\<lparr>nodes := nodes tree @ [n]\<rparr>) d replace = Inr (tree2, child)"
    and app: "nodes tree2 = nodes (tree\<lparr>nodes := nodes tree @ [n]\<rparr>) @ extra0"
    by blast
  from app have nodes2: "nodes tree2 = nodes tree @ n # extra0" by simp
  have id: "unat (node_id n) = length (nodes tree)"
    using assms(3) by (simp add: n_def unat_of_nat)
  have own: "nodes tree2 ! unat (node_id n) = n" and rng: "\<not> length (nodes tree2) \<le> unat (node_id n)"
    by (simp_all add: id nodes2)
  define tree3 where "tree3 = tree2\<lparr>nodes := (nodes tree2)
                          [unat (node_id n) := n\<lparr>children := children n @ [node_id child]\<rparr>]\<rparr>"
  have kids: "children n = []" and kind: "node_type n = EXISTS"
    by (simp_all add: n_def Node_default_def)
  have res: "Exists_getTree e tree d replace = Inr (tree3, n)"
    unfolding Exists_getTree_def Let_def n_def [symmetric]
    using assms(1) low rng own by (simp add: tree3_def)
  have nodes3: "nodes tree3 = nodes tree @ n\<lparr>children := [node_id child]\<rparr> # extra0"
    by (simp add: tree3_def id nodes2 kids)
  have len: "length (parameters n) = length (params e)"
    by (simp add: n_def)
  have names: "\<forall>i < length (params e).
                 parameters n ! i =
                   Param_default\<lparr>pname :=
                     (if i < length replace \<and> 0 \<le> params e ! i
                         \<and> nat (params e ! i) < length replace
                      then replace ! nat (params e ! i)
                      else ''?'' @ to_string (params e ! i))\<rparr>"
  proof (intro allI impI)
    fix i assume i: "i < length (params e)"
    then have "params e ! i \<in> set (params e)" by simp
    with assms(5) have b: "- (2 ^ 31) \<le> params e ! i" "params e ! i < 2 ^ 31" by auto
    from i have "parameters n ! i = exists_param replace i (params e ! i)"
      by (simp add: n_def)
    then show "parameters n ! i =
                   Param_default\<lparr>pname :=
                     (if i < length replace \<and> 0 \<le> params e ! i
                         \<and> nat (params e ! i) < length replace
                      then replace ! nat (params e ! i)
                      else ''?'' @ to_string (params e ! i))\<rparr>"
      by (simp only: exists_param_name [OF b assms(4)])
  qed
  from res low nodes2 nodes3 kind id kids len names show ?thesis by blast
qed

text \<open>
  The claim as stated fails for two parameters of slot 0 and a replacement list of one
  name: the slot of the second parameter is inside the list, its position is not, and it
  is lowered to the placeholder.
\<close>

theorem Exists_getTree_lowering_counterexample:
  "lowered_names (Exists_getTree exists_two \<lparr>nodes = []\<rparr> () [''a'']) = Inr [''a'', ''?0'']
   \<and> [0, 0 :: int] ! 1 = 0 \<and> (0 :: nat) < length [''a'']"
  by code_simp

theorem Exists_getTree_lowering_witness:
  "lowered_names (Exists_getTree exists_three tree_P () [''x'', ''y''])
     = Inr [''y'', ''x'', ''?5'']"
proof -
  have h1: "cond exists_three = Some lower_atom"
    by (simp add: exists_three_def)
  have h2: "\<forall>t. \<exists>t' child extra.
      lower_atom t () [''x'', ''y''] = Inr (t', child) \<and> nodes t' = nodes t @ extra"
    by (simp add: lower_atom_def)
  have h3: "length (nodes tree_P) < 2 ^ 32" and h4: "length [''x'', ''y''] < 2 ^ 63"
    by (simp_all add: tree_P_def)
  have h5: "\<forall>p \<in> set (params exists_three). - (2 ^ 31) \<le> p \<and> p < 2 ^ 31"
    by (simp add: exists_three_def)
  from Exists_getTree_lowering [OF h1 h2 h3 h4 h5] obtain n tree3 where
    res: "Exists_getTree exists_three tree_P () [''x'', ''y''] = Inr (tree3, n)"
    and len: "length (parameters n) = length (params exists_three)"
    and names: "\<forall>i < length (params exists_three).
                 parameters n ! i =
                   Param_default\<lparr>pname :=
                     (if i < length [''x'', ''y''] \<and> 0 \<le> params exists_three ! i
                         \<and> nat (params exists_three ! i) < length [''x'', ''y'']
                      then [''x'', ''y''] ! nat (params exists_three ! i)
                      else ''?'' @ to_string (params exists_three ! i))\<rparr>"
    by blast
  have five: "to_string 5 = ''5''"
    by code_simp
  from names have nth: "parameters n ! 0 = Param_default\<lparr>pname := ''y''\<rparr>"
    "parameters n ! Suc 0 = Param_default\<lparr>pname := ''x''\<rparr>"
    "parameters n ! Suc (Suc 0) = Param_default\<lparr>pname := ''?5''\<rparr>"
    by (simp_all add: exists_three_def five)
  from len have len3: "length (parameters n) = Suc (Suc (Suc 0))"
    by (simp add: exists_three_def)
  have "map pname (parameters n) = [''y'', ''x'', ''?5'']"
  proof (rule nth_equalityI)
    show "length (map pname (parameters n)) = length [''y'', ''x'', ''?5'']"
      using len3 by simp
  next
    fix i assume "i < length (map pname (parameters n))"
    with len3 have "i = 0 \<or> i = Suc 0 \<or> i = Suc (Suc 0)"
      by (auto simp: less_Suc_eq)
    with nth len3 show "map pname (parameters n) ! i = [''y'', ''x'', ''?5''] ! i"
      by auto
  qed
  with res show ?thesis by (simp add: lowered_names_def)
qed

subsection \<open>The parameter node\<close>

lemma replace_leaf:
  "replace_children_param fuel tree_parameter 0 [''?0'' \<mapsto> ''a'']
     = Inr \<lparr>nodes = [mk_node PARAMETER [] [] [''a'']]\<rparr>"
  by (cases fuel)
    (simp_all add: replace_children_param.simps replace_children_param_body_def
      tree_parameter_def fixture_simps set_param_name_def Let_def
      mk_node_def mk_param_def Node_default_def Param_default_def)

text \<open>
  C1. The claim makes \<^verbatim>\<open>PARAMETER\<close> a terminal case that returns (true, false, 0) for an
  unresolved parameter. The code runs on into the \<^verbatim>\<open>EXISTS\<close> case: on the node \<open>?0\<close> and
  a local state that holds \<open>P(a)\<close> it builds the candidate \<open>a\<close>, grounds the tree and reads
  the first child of the node, which has none. That is so at every depth.
\<close>

theorem parameter_falls_through:
  "evaluate fuel list_client tree_parameter (local_state [fact_P_a] []) False True 0 False
     = Inl Undefined"
proof -
  have inst: "collect_instances [fact_P_a] = [mk_param ''a'']"
    by (simp add: collect_instances_def fact_P_a_def fixture_simps)
  have cands: "possible_parameters_values (mk_node PARAMETER [] [] [''?0'']) [mk_param ''a'']
      = [[''a'']]"
    by (simp add: possible_parameters_values_def fixture_simps)
  have repl: "make_replace (parameters (mk_node PARAMETER [] [] [''?0''])) [''a'']
      = [''?0'' \<mapsto> ''a'']"
    by (simp add: make_replace_def fixture_simps)
  have cand: "exists_candidate (replace_children_param k) rec tree_parameter False True 0 False
      [''a''] st = Inl Undefined" for k rec and st :: "(node list \<times> param list) state"
    using repl replace_leaf [of k]
    by (simp add: exists_candidate_def tree_parameter_def fixture_simps)
  have ex: "evaluate_EXISTS (replace_children_param k) list_client rec tree_parameter
      (local_state [fact_P_a] []) False True 0 False = Inl Undefined" for k rec
    using inst cands cand [of k rec]
    by (simp add: evaluate_EXISTS_def local_state_def tree_parameter_def)
  have "evaluate_body (replace_children_param k) list_client rec tree_parameter
      (local_state [fact_P_a] []) False True 0 False = Inl Undefined" for k rec
    using ex [of k rec]
    by (simp add: evaluate_body_def evaluate_PARAMETER_def tree_parameter_def fixture_simps)
  then show ?thesis
    by (cases fuel) (simp_all add: evaluate.simps)
qed

end
